theory Spec2Isabelle
  imports Main "HOL-Library.Word"
begin

section \<open>Strings of the scripting language\<close>

text \<open>
  A string value of the script is a sequence of 16-bit code units. String literals of the
  source are written through \<open>str\<close>.
\<close>

type_synonym jchar = "16 word"
type_synonym jstring = "jchar list"

definition str :: "string \<Rightarrow> jstring" where
  "str s = map of_char s"

text \<open>
  \<open>String.prototype.trim\<close> removes leading and trailing white space and line
  terminators: TAB, LF, VT, FF, CR, SP, NBSP, the Unicode space separators, LS, PS and
  the byte order mark.
\<close>

definition isWhiteSpace :: "jchar \<Rightarrow> bool" where
  "isWhiteSpace c =
     (c = 0x09 \<or> c = 0x0A \<or> c = 0x0B \<or> c = 0x0C \<or> c = 0x0D \<or> c = 0x20 \<or> c = 0xA0
      \<or> c = 0x1680 \<or> (0x2000 \<le> c \<and> c \<le> 0x200A) \<or> c = 0x2028 \<or> c = 0x2029
      \<or> c = 0x202F \<or> c = 0x205F \<or> c = 0x3000 \<or> c = 0xFEFF)"

definition trim :: "jstring \<Rightarrow> jstring" where
  "trim s = rev (dropWhile isWhiteSpace (rev (dropWhile isWhiteSpace s)))"

text \<open>\<open>s.includes(pat)\<close> on strings: \<open>pat\<close> occurs in \<open>s\<close> as a contiguous run.\<close>

fun includes_str :: "jstring \<Rightarrow> jstring \<Rightarrow> bool" where
  "includes_str [] pat = (pat = [])"
| "includes_str (c # cs) pat = (take (length pat) (c # cs) = pat \<or> includes_str cs pat)"

section \<open>Documents\<close>

text \<open>
  A loaded page is a forest of nodes: text nodes and elements with a tag name and children.
  Other node kinds contribute neither to \<open>textContent\<close> nor to the element-sibling
  relation and are left out.
\<close>

datatype node = Text jstring | Elem string "node list"

type_synonym document = "node list"

fun textContent :: "node \<Rightarrow> jstring" where
  "textContent (Text s) = s"
| "textContent (Elem t cs) = concat (map textContent cs)"

fun tagName :: "node \<Rightarrow> string" where
  "tagName (Text s) = []"
| "tagName (Elem t cs) = t"

text \<open>The first element among a run of following siblings: \<open>nextElementSibling\<close>.\<close>

fun firstElement :: "node list \<Rightarrow> node option" where
  "firstElement [] = None"
| "firstElement (Text s # ns) = firstElement ns"
| "firstElement (Elem t cs # ns) = Some (Elem t cs)"

text \<open>
  All elements below a run of sibling nodes, in document order. Each element comes with
  its \<open>nextElementSibling\<close> and with \<open>parentElement.nextElementSibling\<close>
  (\<open>None\<close> when there is no parent element or the parent has no following element);
  the first argument is that value for the run being listed.
\<close>

function elements :: "node option \<Rightarrow> node list \<Rightarrow> (node \<times> node option \<times> node option) list" where
  "elements pn [] = []"
| "elements pn (Text s # ns) = elements pn ns"
| "elements pn (Elem t cs # ns) =
     (Elem t cs, firstElement ns, pn) # elements (firstElement ns) cs @ elements pn ns"
  by pat_completeness auto
termination
  by (relation "measure (\<lambda>(pn, ns). size_list size ns)") auto

text \<open>\<open>document.querySelectorAll('*')\<close>\<close>

definition querySelectorAll :: "document \<Rightarrow> (node \<times> node option \<times> node option) list" where
  "querySelectorAll doc = elements None doc"

text \<open>\<open>document.querySelector(tag)\<close>: the first element in document order with that tag.\<close>

definition querySelector :: "string \<Rightarrow> document \<Rightarrow> node option" where
  "querySelector t doc = map_option fst (find (\<lambda>(e, nx, pn). tagName e = t) (querySelectorAll doc))"

section \<open>Field extraction\<close>

record MemberRecord =
  company :: jstring
  contact :: jstring
  phone :: jstring
  email :: jstring
  city :: jstring
  province :: jstring
  website :: jstring
  memberType :: jstring

text \<open>The guard of the scan: \<open>el.textContent && el.textContent.trim() === label\<close>.\<close>

definition labelMatches :: "jstring \<Rightarrow> node \<Rightarrow> bool" where
  "labelMatches label el = (textContent el \<noteq> [] \<and> trim (textContent el) = label)"

text \<open>The loop of \<open>getText\<close> over the listed elements; falling off the end gives \<open>''\<close>.\<close>

fun getTextLoop :: "jstring \<Rightarrow> (node \<times> node option \<times> node option) list \<Rightarrow> jstring" where
  "getTextLoop label [] = []"
| "getTextLoop label ((el, nextEl, parentNext) # rest) =
     (if labelMatches label el then
        (case nextEl of
           Some n \<Rightarrow> trim (textContent n)
         | None \<Rightarrow>
            (case parentNext of
               Some p \<Rightarrow> trim (textContent p)
             | None \<Rightarrow> getTextLoop label rest))
      else getTextLoop label rest)"

definition getText :: "document \<Rightarrow> jstring \<Rightarrow> jstring" where
  "getText doc label = getTextLoop label (querySelectorAll doc)"

text \<open>\<open>a || b\<close> on a string or \<open>undefined\<close> (\<open>None\<close>): the empty string and \<open>undefined\<close> are falsy.\<close>

fun truthy :: "jstring option \<Rightarrow> bool" where
  "truthy None = False"
| "truthy (Some s) = (s \<noteq> [])"

definition js_or :: "jstring option \<Rightarrow> jstring option \<Rightarrow> jstring option" where
  "js_or a b = (if truthy a then a else b)"

text \<open>\<open>document.querySelector(tag)?.textContent.trim()\<close>\<close>

definition headingText :: "string \<Rightarrow> document \<Rightarrow> jstring option" where
  "headingText t doc = map_option (\<lambda>e. trim (textContent e)) (querySelector t doc)"

text \<open>The template \<open>`${firstName} ${lastName}`.trim()\<close>.\<close>

definition contactName :: "jstring \<Rightarrow> jstring \<Rightarrow> jstring" where
  "contactName firstName lastName = trim (firstName @ str '' '' @ lastName)"

text \<open>
  The function evaluated in the profile page. The outer \<open>|| ''\<close> always yields a string,
  so the case on \<open>None\<close> below is never taken.
\<close>

definition orEmpty :: "jstring option \<Rightarrow> jstring" where
  "orEmpty a = (case js_or a (Some []) of Some s \<Rightarrow> s | None \<Rightarrow> [])"

definition memberInfo :: "document \<Rightarrow> MemberRecord" where
  "memberInfo doc =
     (let company = orEmpty (js_or (headingText ''h3'' doc) (headingText ''h2'' doc));
          firstName = orEmpty (Some (getText doc (str ''First name'')));
          lastName = orEmpty (Some (getText doc (str ''Last name'')));
          contact = contactName firstName lastName;
          email = orEmpty (Some (getText doc (str ''Email'')));
          city = orEmpty (Some (getText doc (str ''City'')));
          province = orEmpty (Some (getText doc (str ''Province/State'')));
          website = orEmpty (Some (getText doc (str ''Web Site'')));
          phone = [];
          memberType = []
      in \<lparr> company = company, contact = contact, phone = phone, email = email,
           city = city, province = province, website = website, memberType = memberType \<rparr>)"

section \<open>Errors, events and the outside world\<close>

text \<open>A thrown value: an error object with its message.\<close>

datatype error = Error string

text \<open>Lines written to the console that report a caught or a final failure, or the outcome.\<close>

datatype logline =
    PaginationError error
  | NoLinksFound
  | MemberError nat error
  | Retrying nat
  | SheetError error
  | Uploaded nat
  | Saved nat
  | NoData
  | ErrorScraping error

text \<open>What the script does to the outside, in the order it does it.\<close>

datatype event =
    Launch
  | NewPage
  | GotoDirectory
  | GotoProfile jstring
  | CloseBrowser
  | WriteRecords "MemberRecord list"
  | SaveToGoogleSheet "MemberRecord list"
  | SheetsClear
  | SheetsUpdate "jstring list list"
  | Log logline

text \<open>
  The outside world answers every awaited call: \<open>None\<close> (or \<open>Inr\<close>) when the call
  resolves, \<open>Some e\<close> (or \<open>Inl e\<close>) when it throws \<open>e\<close>.
\<close>

record option_env =
  optionValue :: jstring
  selectOption :: "error option"
  anchorHrefs :: "error + jstring list"
  optionShot :: "error option"

record profile_env =
  profileGoto :: "error option"
  profileDocument :: "error + document"
  profileShot :: "error option"

record attempt_env =
  directoryGoto :: "error option"
  waitForSelector :: "error option"
  selectOptions :: "error + option_env list"
  debugSteps :: "error option"
  noLinksShot :: "error option"
  profiles :: "nat \<Rightarrow> profile_env"
  browserClose :: "error option"

record run_env =
  launch :: "error option"
  newPage :: "error option"
  setUserAgent :: "error option"
  attempts :: "nat \<Rightarrow> attempt_env"
  writeRecords :: "error option"
  getClient :: "error option"
  sheetsClear :: "error option"
  sheetsUpdate :: "error option"

section \<open>Collecting the profile links\<close>

text \<open>The anchors kept by the scan: \<open>link.href && link.href.includes('PublicProfile')\<close>.\<close>

definition pageMemberLinks :: "jstring list \<Rightarrow> jstring list" where
  "pageMemberLinks hrefs = filter (\<lambda>href. href \<noteq> [] \<and> includes_str href (str ''PublicProfile'')) hrefs"

text \<open>The \<open>forEach\<close> that pushes every link not yet in \<open>allMemberLinks\<close>.\<close>

definition addUniqueLinks :: "jstring list \<Rightarrow> jstring list \<Rightarrow> jstring list" where
  "addUniqueLinks allMemberLinks links =
     fold (\<lambda>link acc. if link \<in> set acc then acc else acc @ [link]) links allMemberLinks"

text \<open>
  The loop over the pagination options. \<open>allMemberLinks\<close> lives outside the guarded block,
  so what was pushed before a throw is still there afterwards: the loop returns the thrown
  error, if any, together with the array.
\<close>

fun paginationLoop :: "option_env list \<Rightarrow> jstring list \<Rightarrow> error option \<times> jstring list" where
  "paginationLoop [] allMemberLinks = (None, allMemberLinks)"
| "paginationLoop (opt # opts) allMemberLinks =
     (case selectOption opt of
        Some e \<Rightarrow> (Some e, allMemberLinks)
      | None \<Rightarrow>
         (case anchorHrefs opt of
            Inl e \<Rightarrow> (Some e, allMemberLinks)
          | Inr hrefs \<Rightarrow>
             (let allMemberLinks' = addUniqueLinks allMemberLinks (pageMemberLinks hrefs)
              in case optionShot opt of
                   Some e \<Rightarrow> (Some e, allMemberLinks')
                 | None \<Rightarrow> paginationLoop opts allMemberLinks')))"

text \<open>The guarded pagination block: any error in it is logged and swallowed.\<close>

definition collectMemberLinks :: "attempt_env \<Rightarrow> jstring list \<times> event list" where
  "collectMemberLinks env =
     (case waitForSelector env of
        Some e \<Rightarrow> ([], [Log (PaginationError e)])
      | None \<Rightarrow>
         (case selectOptions env of
            Inl e \<Rightarrow> ([], [Log (PaginationError e)])
          | Inr paginationOptions \<Rightarrow>
             (case paginationLoop paginationOptions [] of
                (Some e, allMemberLinks) \<Rightarrow> (allMemberLinks, [Log (PaginationError e)])
              | (None, allMemberLinks) \<Rightarrow> (allMemberLinks, []))))"

section \<open>Walking the profiles\<close>

text \<open>
  The guarded body of the profile loop for the link at index \<open>i\<close>: the record pushed, if
  any, and the events. The snapshot comes after the push.
\<close>

definition visitMember :: "profile_env \<Rightarrow> nat \<Rightarrow> jstring \<Rightarrow> MemberRecord option \<times> event list" where
  "visitMember p i link =
     (case profileGoto p of
        Some e \<Rightarrow> (None, [GotoProfile link, Log (MemberError (i + 1) e)])
      | None \<Rightarrow>
         (case profileDocument p of
            Inl e \<Rightarrow> (None, [GotoProfile link, Log (MemberError (i + 1) e)])
          | Inr doc \<Rightarrow>
             (case profileShot p of
                Some e \<Rightarrow> (Some (memberInfo doc), [GotoProfile link, Log (MemberError (i + 1) e)])
              | None \<Rightarrow> (Some (memberInfo doc), [GotoProfile link]))))"

function walkMembers ::
  "(nat \<Rightarrow> profile_env) \<Rightarrow> jstring list \<Rightarrow> nat \<Rightarrow> MemberRecord list \<Rightarrow> event list
     \<Rightarrow> MemberRecord list \<times> event list" where
  "walkMembers env memberLinks i members tr =
     (if i < length memberLinks then
        (let link = memberLinks ! i;
             (pushed, evs) = visitMember (env i) i link
         in walkMembers env memberLinks (Suc i)
              (case pushed of Some m \<Rightarrow> members @ [m] | None \<Rightarrow> members) (tr @ evs))
      else (members, tr))"
  by pat_completeness auto
termination
  by (relation "measure (\<lambda>(env, memberLinks, i, members, tr). length memberLinks - i)") auto

declare walkMembers.simps [simp del]

section \<open>One attempt, the retry loop and the whole scrape\<close>

text \<open>
  The body of the outer guarded block: the thrown error or the returned records, and the
  events. \<open>debugSteps\<close> stands for the unguarded snapshot, title, debug and scroll calls
  between the pagination block and the link count.
\<close>

definition attempt :: "attempt_env \<Rightarrow> (error + MemberRecord list) \<times> event list" where
  "attempt env =
     (case directoryGoto env of
        Some e \<Rightarrow> (Inl e, [GotoDirectory])
      | None \<Rightarrow>
         (let (memberLinks, tr1) = collectMemberLinks env
          in case debugSteps env of
               Some e \<Rightarrow> (Inl e, GotoDirectory # tr1)
             | None \<Rightarrow>
                (if length memberLinks = 0 then
                   (case noLinksShot env of
                      Some e \<Rightarrow> (Inl e, GotoDirectory # tr1 @ [Log NoLinksFound])
                    | None \<Rightarrow> (Inr [], GotoDirectory # tr1 @ [Log NoLinksFound]))
                 else
                   (let (members, tr2) = walkMembers (profiles env) memberLinks 0 [] []
                    in case browserClose env of
                         Some e \<Rightarrow> (Inl e, GotoDirectory # tr1 @ tr2 @ [CloseBrowser])
                       | None \<Rightarrow> (Inr members, GotoDirectory # tr1 @ tr2 @ [CloseBrowser])))))"

text \<open>
  \<open>while (retries--)\<close>: the first argument is the counter before the test, the body sees
  it decremented. \<open>k\<close> counts the attempts made so far. Leaving the loop through its test
  would return \<open>undefined\<close> (\<open>Inr None\<close>).
\<close>

fun retryLoop ::
  "nat \<Rightarrow> nat \<Rightarrow> (nat \<Rightarrow> attempt_env) \<Rightarrow> (error + MemberRecord list option) \<times> event list" where
  "retryLoop 0 k envs = (Inr None, [])"
| "retryLoop (Suc retries) k envs =
     (case attempt (envs k) of
        (Inr members, tr) \<Rightarrow> (Inr (Some members), tr)
      | (Inl err, tr) \<Rightarrow>
          (if retries = 0 then (Inl err, tr @ [Log (Retrying retries)])
           else (let (r, tr') = retryLoop retries (Suc k) envs
                 in (r, tr @ [Log (Retrying retries)] @ tr'))))"

definition scrapeData :: "run_env \<Rightarrow> (error + MemberRecord list option) \<times> event list" where
  "scrapeData env =
     (case launch env of
        Some e \<Rightarrow> (Inl e, [Launch])
      | None \<Rightarrow>
         (case newPage env of
            Some e \<Rightarrow> (Inl e, [Launch, NewPage])
          | None \<Rightarrow>
             (case setUserAgent env of
                Some e \<Rightarrow> (Inl e, [Launch, NewPage])
              | None \<Rightarrow>
                 (let (r, tr) = retryLoop 3 0 (attempts env) in (r, [Launch, NewPage] @ tr)))))"

section \<open>The sinks and the main program\<close>

definition headers :: "jstring list" where
  "headers = map str [''Company Name'', ''Contact Name'', ''Phone'', ''Email'', ''City'',
                      ''Province'', ''Website'', ''Member Type'']"

definition rowValues :: "MemberRecord \<Rightarrow> jstring list" where
  "rowValues row = [company row, contact row, phone row, email row, city row, province row,
                    website row, memberType row]"

text \<open>The guarded body of the spreadsheet sink: the error thrown in it, if any.\<close>

definition sheetBody :: "run_env \<Rightarrow> MemberRecord list \<Rightarrow> error option \<times> event list" where
  "sheetBody env rows =
     (case getClient env of
        Some e \<Rightarrow> (Some e, [])
      | None \<Rightarrow>
         (case sheetsClear env of
            Some e \<Rightarrow> (Some e, [SheetsClear])
          | None \<Rightarrow>
             (case sheetsUpdate env of
                Some e \<Rightarrow> (Some e, [SheetsClear, SheetsUpdate (headers # map rowValues rows)])
              | None \<Rightarrow> (None, [SheetsClear, SheetsUpdate (headers # map rowValues rows),
                                Log (Uploaded (length rows))]))))"

text \<open>The sink catches whatever its body throws; the first component is what it throws itself.\<close>

definition saveToGoogleSheet :: "run_env \<Rightarrow> MemberRecord list \<Rightarrow> error option \<times> event list" where
  "saveToGoogleSheet env rows =
     (case sheetBody env rows of
        (Some e, tr) \<Rightarrow> (None, SaveToGoogleSheet rows # tr @ [Log (SheetError e)])
      | (None, tr) \<Rightarrow> (None, SaveToGoogleSheet rows # tr))"

text \<open>
  The main program: everything is inside one guarded block whose handler logs the error.
  Reading \<open>rows.length\<close> of \<open>undefined\<close> would throw a type error.
\<close>

definition main :: "run_env \<Rightarrow> event list" where
  "main env =
     (case scrapeData env of
        (Inl err, tr) \<Rightarrow> tr @ [Log (ErrorScraping err)]
      | (Inr None, tr) \<Rightarrow> tr @ [Log (ErrorScraping (Error ''TypeError''))]
      | (Inr (Some rows), tr) \<Rightarrow>
          (if length rows > 0 then
             (case writeRecords env of
                Some e \<Rightarrow> tr @ [WriteRecords rows, Log (ErrorScraping e)]
              | None \<Rightarrow>
                 (case saveToGoogleSheet env rows of
                    (Some e, tr') \<Rightarrow> tr @ [WriteRecords rows, Log (Saved (length rows))] @ tr'
                                       @ [Log (ErrorScraping e)]
                  | (None, tr') \<Rightarrow> tr @ [WriteRecords rows, Log (Saved (length rows))] @ tr'))
           else tr @ [Log NoData]))"

section \<open>Reference order and observers of the trace\<close>

text \<open>
  The order of first discovery, as the specification words it: an item stays at its first
  occurrence and every later occurrence is dropped.
\<close>

fun spec_firstDiscovery :: "'a list \<Rightarrow> 'a list" where
  "spec_firstDiscovery [] = []"
| "spec_firstDiscovery (x # xs) = x # filter (\<lambda>y. y \<noteq> x) (spec_firstDiscovery xs)"

text \<open>
  Readers of the trace: the link of a profile navigation, the events of the two sinks, the
  line by which the main program reports a failed run, and the attempts left that the retry
  handler prints.
\<close>

fun gotoTarget :: "event \<Rightarrow> jstring option" where
  "gotoTarget (GotoProfile l) = Some l"
| "gotoTarget _ = None"

fun isSinkEvent :: "event \<Rightarrow> bool" where
  "isSinkEvent (WriteRecords rows) = True"
| "isSinkEvent (SaveToGoogleSheet rows) = True"
| "isSinkEvent SheetsClear = True"
| "isSinkEvent (SheetsUpdate values) = True"
| "isSinkEvent _ = False"

fun isSheetEvent :: "event \<Rightarrow> bool" where
  "isSheetEvent (SaveToGoogleSheet rows) = True"
| "isSheetEvent SheetsClear = True"
| "isSheetEvent (SheetsUpdate values) = True"
| "isSheetEvent _ = False"

fun isRunFailure :: "event \<Rightarrow> bool" where
  "isRunFailure (Log (ErrorScraping e)) = True"
| "isRunFailure _ = False"

fun attemptsLeft :: "event \<Rightarrow> nat option" where
  "attemptsLeft (Log (Retrying n)) = Some n"
| "attemptsLeft _ = None"

text \<open>Events of the walk and of the pagination block.\<close>

fun isInnerEvent :: "event \<Rightarrow> bool" where
  "isInnerEvent (GotoProfile l) = True"
| "isInnerEvent CloseBrowser = True"
| "isInnerEvent (Log (PaginationError e)) = True"
| "isInnerEvent (Log NoLinksFound) = True"
| "isInnerEvent (Log (MemberError i e)) = True"
| "isInnerEvent _ = False"

section \<open>Example inputs\<close>

definition exDocument :: document where
  "exDocument =
     [Elem ''html''
        [Elem ''head'' [Elem ''title'' [Text (str ''Member'')]],
         Elem ''body''
           [Elem ''h3'' [Text (str '' Acme Signs '')],
            Elem ''div'' [Elem ''span'' [Text (str ''First name'')], Elem ''span'' [Text (str ''Jane'')]],
            Elem ''div'' [Elem ''span'' [Text (str ''Last name'')], Elem ''span'' [Text (str ''Doe'')]],
            Elem ''div''
              [Elem ''div'' [Elem ''strong'' [Text (str ''Email'')]],
               Elem ''div'' [Text (str ''jane@acme.com'')]]]]]"

definition exDuplicate :: document where
  "exDuplicate =
     [Elem ''div'' [Elem ''span'' [Text (str ''Email'')], Elem ''span'' [Text (str ''a@x'')]],
      Elem ''div'' [Elem ''span'' [Text (str ''Email'')], Elem ''span'' [Text (str ''b@y'')]]]"

definition exHeadingOne :: document where
  "exHeadingOne = [Elem ''html'' [Elem ''body'' [Elem ''h1'' [Text (str ''Acme Signs'')]]]]"

definition exLinkA :: jstring where "exLinkA = str ''/PublicProfile/1''"
definition exLinkB :: jstring where "exLinkB = str ''/PublicProfile/2''"
definition exLinkC :: jstring where "exLinkC = str ''/PublicProfile/3''"

definition exOption10 :: option_env where
  "exOption10 = \<lparr> optionValue = str ''10'', selectOption = None,
                   anchorHrefs = Inr [str ''/about'', exLinkA, exLinkB], optionShot = None \<rparr>"

definition exOption25 :: option_env where
  "exOption25 = \<lparr> optionValue = str ''25'', selectOption = None,
                   anchorHrefs = Inr [exLinkB, [], exLinkC], optionShot = None \<rparr>"

definition exOptionBad :: option_env where
  "exOptionBad = \<lparr> optionValue = str ''50'', selectOption = None,
                    anchorHrefs = Inl (Error ''detached''), optionShot = None \<rparr>"

definition exOptionShot :: option_env where
  "exOptionShot = \<lparr> optionValue = str ''25'', selectOption = None,
                     anchorHrefs = Inr [exLinkB, [], exLinkC], optionShot = Some (Error ''disk'') \<rparr>"

definition exProfiles :: "nat \<Rightarrow> profile_env" where
  "exProfiles i =
     (if i = 1 then \<lparr> profileGoto = Some (Error ''timeout''), profileDocument = Inr [],
                       profileShot = None \<rparr>
      else \<lparr> profileGoto = None, profileDocument = Inr exDocument, profileShot = None \<rparr>)"

definition exAttempt :: attempt_env where
  "exAttempt = \<lparr> directoryGoto = None, waitForSelector = None,
                  selectOptions = Inr [exOption10, exOption25], debugSteps = None,
                  noLinksShot = None, profiles = exProfiles, browserClose = None \<rparr>"

definition exAttemptDown :: attempt_env where
  "exAttemptDown = exAttempt \<lparr> directoryGoto := Some (Error ''net'') \<rparr>"

definition exAttemptEmpty :: attempt_env where
  "exAttemptEmpty = exAttempt \<lparr> selectOptions := Inr [] \<rparr>"

definition exAttemptPartial :: attempt_env where
  "exAttemptPartial = exAttempt \<lparr> selectOptions := Inr [exOption10, exOptionBad, exOption25] \<rparr>"

definition exAttemptShot :: attempt_env where
  "exAttemptShot = exAttempt \<lparr> selectOptions := Inr [exOption10, exOptionShot, exOption10] \<rparr>"

definition exRun :: run_env where
  "exRun = \<lparr> launch = None, newPage = None, setUserAgent = None, attempts = (\<lambda>k. exAttempt),
              writeRecords = None, getClient = Some (Error ''auth''), sheetsClear = None,
              sheetsUpdate = None \<rparr>"

definition exRunRetry :: run_env where
  "exRunRetry = exRun \<lparr> attempts := (\<lambda>k. if k = 0 then exAttemptDown else exAttempt) \<rparr>"

definition exRunDown :: run_env where
  "exRunDown = exRun \<lparr> attempts := (\<lambda>k. exAttemptDown) \<rparr>"

definition exRunEmpty :: run_env where
  "exRunEmpty = exRun \<lparr> attempts := (\<lambda>k. exAttemptEmpty) \<rparr>"

definition exRunFileFails :: run_env where
  "exRunFileFails = exRun \<lparr> writeRecords := Some (Error ''EACCES'') \<rparr>"

definition exParentSibling :: document where
  "exParentSibling =
     [Elem ''p'' [Text (str ''In '' ), Elem ''b'' [Text (str ''City'')]],
      Elem ''p'' [Text (str '' Toronto'')]]"

definition exHeadingTwo :: document where
  "exHeadingTwo = [Elem ''h3'' [Text (str ''  '')], Elem ''h2'' [Text (str ''Beta Neon'')]]"

section \<open>Link collection\<close>

lemma set_firstDiscovery: "set (spec_firstDiscovery xs) = set xs"
  by (induction xs) auto

lemma distinct_firstDiscovery: "distinct (spec_firstDiscovery xs)"
  by (induction xs) (auto simp: set_firstDiscovery)

lemma addUniqueLinks_eq:
  "addUniqueLinks acc xs = acc @ filter (\<lambda>y. y \<notin> set acc) (spec_firstDiscovery xs)"
  unfolding addUniqueLinks_def
proof (induction xs arbitrary: acc)
  case Nil
  show ?case by simp
next
  case (Cons x xs)
  show ?case
  proof (cases "x \<in> set acc")
    case True
    have "filter (\<lambda>y. y \<noteq> x \<and> y \<notin> set acc) (spec_firstDiscovery xs)
          = filter (\<lambda>y. y \<notin> set acc) (spec_firstDiscovery xs)"
      using True by (intro filter_cong) auto
    with True Cons.IH [of acc] show ?thesis by simp
  next
    case False
    have "filter (\<lambda>y. y \<notin> set (acc @ [x])) (spec_firstDiscovery xs)
          = filter (\<lambda>y. y \<noteq> x \<and> y \<notin> set acc) (spec_firstDiscovery xs)"
      by (intro filter_cong) auto
    with False Cons.IH [of "acc @ [x]"] show ?thesis by simp
  qed
qed

lemma firstDiscovery_append:
  "spec_firstDiscovery (xs @ ys)
     = spec_firstDiscovery xs @ filter (\<lambda>y. y \<notin> set xs) (spec_firstDiscovery ys)"
proof (induction xs)
  case Nil
  show ?case by simp
next
  case (Cons x xs)
  then show ?case by (auto intro!: filter_cong)
qed

lemma addUniqueLinks_firstDiscovery:
  "addUniqueLinks (spec_firstDiscovery xs) ys = spec_firstDiscovery (xs @ ys)"
  by (simp add: addUniqueLinks_eq firstDiscovery_append set_firstDiscovery)

lemma distinct_addUniqueLinks: "distinct acc \<Longrightarrow> distinct (addUniqueLinks acc xs)"
  by (auto simp: addUniqueLinks_eq distinct_firstDiscovery)

lemma distinct_paginationLoop: "distinct acc \<Longrightarrow> distinct (snd (paginationLoop opts acc))"
  by (induction opts arbitrary: acc) (auto simp: Let_def distinct_addUniqueLinks split: option.splits sum.splits)

lemma distinct_collectMemberLinks: "distinct (fst (collectMemberLinks env))"
proof -
  have "distinct (snd (paginationLoop opts []))" for opts
    by (rule distinct_paginationLoop) simp
  then show ?thesis
    by (auto simp: collectMemberLinks_def split: option.splits sum.splits prod.splits)
       (metis snd_conv)+
qed

lemma paginationLoop_ok:
  "\<forall>opt \<in> set opts. selectOption opt = None \<and> optionShot opt = None \<Longrightarrow>
   map anchorHrefs opts = map Inr hrefss \<Longrightarrow>
   paginationLoop opts (spec_firstDiscovery xs)
     = (None, spec_firstDiscovery (xs @ concat (map pageMemberLinks hrefss)))"
proof (induction opts arbitrary: xs hrefss)
  case Nil
  then show ?case by simp
next
  case (Cons opt opts)
  then obtain hrefs rest where h: "hrefss = hrefs # rest" "anchorHrefs opt = Inr hrefs"
    "map anchorHrefs opts = map Inr rest" by (cases hrefss) auto
  from Cons.prems(1) have ok: "selectOption opt = None" "optionShot opt = None"
    "\<forall>opt \<in> set opts. selectOption opt = None \<and> optionShot opt = None" by auto
  show ?case
    using Cons.IH [OF ok(3) h(3), of "xs @ pageMemberLinks hrefs"] h ok
    by (simp add: addUniqueLinks_firstDiscovery)
qed

lemma paginationLoop_fails:
  "\<forall>opt \<in> set pre. selectOption opt = None \<and> optionShot opt = None \<Longrightarrow>
   map anchorHrefs pre = map Inr hrefss \<Longrightarrow>
   selectOption bad = Some e \<or> (selectOption bad = None \<and> anchorHrefs bad = Inl e) \<Longrightarrow>
   paginationLoop (pre @ bad # post) (spec_firstDiscovery xs)
     = (Some e, spec_firstDiscovery (xs @ concat (map pageMemberLinks hrefss)))"
proof (induction pre arbitrary: xs hrefss)
  case Nil
  then show ?case by auto
next
  case (Cons opt opts)
  then obtain hrefs rest where h: "hrefss = hrefs # rest" "anchorHrefs opt = Inr hrefs"
    "map anchorHrefs opts = map Inr rest" by (cases hrefss) auto
  from Cons.prems(1) have ok: "selectOption opt = None" "optionShot opt = None"
    "\<forall>opt \<in> set opts. selectOption opt = None \<and> optionShot opt = None" by auto
  show ?case
    using Cons.IH [OF ok(3) h(3) Cons.prems(3), of "xs @ pageMemberLinks hrefs"] h ok
    by (simp add: addUniqueLinks_firstDiscovery)
qed

lemma paginationLoop_fails_shot:
  "\<forall>opt \<in> set pre. selectOption opt = None \<and> optionShot opt = None \<Longrightarrow>
   map anchorHrefs pre = map Inr hrefss \<Longrightarrow>
   selectOption bad = None \<Longrightarrow> anchorHrefs bad = Inr hrefs \<Longrightarrow> optionShot bad = Some e \<Longrightarrow>
   paginationLoop (pre @ bad # post) (spec_firstDiscovery xs)
     = (Some e, spec_firstDiscovery (xs @ concat (map pageMemberLinks (hrefss @ [hrefs]))))"
proof (induction pre arbitrary: xs hrefss)
  case Nil
  then show ?case by (simp add: addUniqueLinks_firstDiscovery)
next
  case (Cons opt opts)
  then obtain hrefs' rest where h: "hrefss = hrefs' # rest" "anchorHrefs opt = Inr hrefs'"
    "map anchorHrefs opts = map Inr rest" by (cases hrefss) auto
  from Cons.prems(1) have ok: "selectOption opt = None" "optionShot opt = None"
    "\<forall>opt \<in> set opts. selectOption opt = None \<and> optionShot opt = None" by auto
  show ?case
    using Cons.IH [OF ok(3) h(3) Cons.prems(3-5), of "xs @ pageMemberLinks hrefs'"] h ok
    by (simp add: addUniqueLinks_firstDiscovery)
qed

lemma paginationLoop_keeps:
  "take (length acc) (snd (paginationLoop opts acc)) = acc"
proof (induction opts arbitrary: acc)
  case Nil
  show ?case by simp
next
  case (Cons opt opts)
  have k: "take (length acc) (addUniqueLinks acc xs) = acc" for xs
    by (simp add: addUniqueLinks_eq)
  have "take (length acc) (snd (paginationLoop opts (addUniqueLinks acc xs))) = acc" for xs
  proof -
    have "length acc \<le> length (addUniqueLinks acc xs)" by (simp add: addUniqueLinks_eq)
    then have "take (length acc) (snd (paginationLoop opts (addUniqueLinks acc xs)))
                 = take (length acc) (take (length (addUniqueLinks acc xs))
                     (snd (paginationLoop opts (addUniqueLinks acc xs))))"
      by (simp add: min_def)
    then show ?thesis by (simp only: Cons.IH k)
  qed
  then show ?case
    by (simp add: Let_def k split: option.splits sum.splits)
qed

section \<open>The profile walk\<close>

lemma walkMembers_unfold:
  "walkMembers env links i members tr =
     (members @ List.map_filter (\<lambda>j. fst (visitMember (env j) j (links ! j))) [i..<length links],
      tr @ concat (map (\<lambda>j. snd (visitMember (env j) j (links ! j))) [i..<length links]))"
proof (induction env links i members tr rule: walkMembers.induct)
  case (1 env memberLinks i members tr)
  show ?case
  proof (cases "i < length memberLinks")
    case False
    then show ?thesis by (simp add: walkMembers.simps [of env memberLinks i] List.map_filter_simps)
  next
    case True
    obtain pushed evs where v: "visitMember (env i) i (memberLinks ! i) = (pushed, evs)"
      by (cases "visitMember (env i) i (memberLinks ! i)")
    have up: "[i..<length memberLinks] = i # [Suc i..<length memberLinks]"
      using True by (simp add: upt_conv_Cons)
    show ?thesis
      using True v "1.IH" [OF True refl v [symmetric] refl]
      by (subst walkMembers.simps) (simp add: up List.map_filter_simps split: option.splits)
  qed
qed

lemma gotoTarget_visitMember:
  "List.map_filter gotoTarget (snd (visitMember p i link)) = [link]"
  by (simp add: visitMember_def List.map_filter_simps split: option.splits sum.splits)

lemma map_filter_append: "List.map_filter f (xs @ ys) = List.map_filter f xs @ List.map_filter f ys"
  by (simp add: List.map_filter_def)

lemma map_filter_concat_visits:
  "List.map_filter gotoTarget (concat (map (\<lambda>j. snd (visitMember (env j) j (links ! j))) js))
     = map (\<lambda>j. links ! j) js"
  by (induction js) (simp_all add: List.map_filter_simps map_filter_append gotoTarget_visitMember)

lemma length_map_filter_le: "length (List.map_filter f xs) \<le> length xs"
  by (simp add: List.map_filter_def length_filter_le [THEN le_trans])

section \<open>Events of an attempt\<close>

lemma inner_visitMember: "list_all isInnerEvent (snd (visitMember p i link))"
  by (simp add: visitMember_def split: option.splits sum.splits)

lemma inner_walkMembers: "list_all isInnerEvent (snd (walkMembers env links 0 [] []))"
  by (simp add: walkMembers_unfold list_all_iff inner_visitMember [unfolded list_all_iff])

lemma inner_collectMemberLinks: "list_all isInnerEvent (snd (collectMemberLinks env))"
  by (simp add: collectMemberLinks_def split: option.splits sum.splits prod.splits)

lemma attempt_trace:
  "\<exists>tr. snd (attempt env) = GotoDirectory # tr \<and> list_all isInnerEvent tr"
  using inner_collectMemberLinks [of env]
    inner_walkMembers [of "profiles env" "fst (collectMemberLinks env)"]
  by (cases "collectMemberLinks env";
      cases "walkMembers (profiles env) (fst (collectMemberLinks env)) 0 [] []")
     (simp add: attempt_def split: option.splits)

lemma inner_facts:
  "isInnerEvent x \<Longrightarrow> x \<noteq> GotoDirectory \<and> x \<noteq> Launch \<and> x \<noteq> NewPage \<and> \<not> isSinkEvent x
     \<and> \<not> isRunFailure x \<and> attemptsLeft x = None"
  by (cases x rule: isInnerEvent.cases) simp_all

lemma inner_count: "list_all isInnerEvent tr \<Longrightarrow>
  count_list tr GotoDirectory = 0 \<and> count_list tr Launch = 0 \<and> count_list tr NewPage = 0
  \<and> \<not> list_ex isSinkEvent tr
  \<and> \<not> list_ex isRunFailure tr \<and> List.map_filter attemptsLeft tr = []"
  by (induction tr) (auto simp: List.map_filter_simps dest: inner_facts)

section \<open>The retry loop\<close>

lemma attempt_cases:
  obtains e tr where "attempt env = (Inl e, GotoDirectory # tr)" "list_all isInnerEvent tr"
  | rows tr where "attempt env = (Inr rows, GotoDirectory # tr)" "list_all isInnerEvent tr"
proof -
  obtain tr where tr: "snd (attempt env) = GotoDirectory # tr" "list_all isInnerEvent tr"
    using attempt_trace by blast
  show thesis
  proof (cases "fst (attempt env)")
    case (Inl e)
    with tr have "attempt env = (Inl e, GotoDirectory # tr)" by (simp add: prod_eq_iff)
    with tr(2) that(1) show ?thesis by blast
  next
    case (Inr rows)
    with tr have "attempt env = (Inr rows, GotoDirectory # tr)" by (simp add: prod_eq_iff)
    with tr(2) that(2) show ?thesis by blast
  qed
qed

lemma retryLoop_Suc_Inr:
  "attempt (envs k) = (Inr rows, tr) \<Longrightarrow> retryLoop (Suc n) k envs = (Inr (Some rows), tr)"
  by simp

lemma retryLoop_Suc_Inl_last:
  "attempt (envs k) = (Inl e, tr) \<Longrightarrow> retryLoop (Suc 0) k envs = (Inl e, tr @ [Log (Retrying 0)])"
  by simp

lemma retryLoop_Suc_Inl_more:
  "attempt (envs k) = (Inl e, tr) \<Longrightarrow>
   retryLoop (Suc (Suc n)) k envs
     = (fst (retryLoop (Suc n) (Suc k) envs),
        tr @ [Log (Retrying (Suc n))] @ snd (retryLoop (Suc n) (Suc k) envs))"
  by (simp add: case_prod_beta)

lemma retryLoop_bound:
  "count_list (snd (retryLoop n k envs)) GotoDirectory \<le> n
   \<and> count_list (snd (retryLoop n k envs)) Launch = 0
   \<and> count_list (snd (retryLoop n k envs)) NewPage = 0
   \<and> \<not> list_ex isSinkEvent (snd (retryLoop n k envs))
   \<and> \<not> list_ex isRunFailure (snd (retryLoop n k envs))"
proof (induction n arbitrary: k)
  case 0
  show ?case by simp
next
  case (Suc n)
  show ?case
  proof (cases rule: attempt_cases [of "envs k"])
    case (2 rows tr)
    then show ?thesis using inner_count [of tr] by simp
  next
    case (1 e tr)
    show ?thesis
    proof (cases n)
      case 0
      with 1 show ?thesis using inner_count [of tr] by simp
    next
      case (Suc m)
      with 1 Suc.IH [of "Suc k"] show ?thesis
        using inner_count [of tr] by (simp add: retryLoop_Suc_Inl_more del: retryLoop.simps)
    qed
  qed
qed

lemma retryLoop_first_success:
  "j < n \<Longrightarrow> \<forall>i<j. isl (fst (attempt (envs (k + i)))) \<Longrightarrow>
   fst (attempt (envs (k + j))) = Inr rows \<Longrightarrow>
   fst (retryLoop n k envs) = Inr (Some rows)"
proof (induction j arbitrary: n k)
  case 0
  then obtain m where "n = Suc m" by (cases n) auto
  with 0 show ?case by (cases "attempt (envs k)") simp
next
  case (Suc j)
  then obtain m where n: "n = Suc (Suc m)" by (cases n; cases "n - 1") auto
  from Suc.prems(2) have "isl (fst (attempt (envs k)))" by force
  then obtain e tr where a: "attempt (envs k) = (Inl e, tr)"
    by (cases "attempt (envs k)") (auto simp: isl_def)
  have "fst (retryLoop (Suc m) (Suc k) envs) = Inr (Some rows)"
  proof (rule Suc.IH)
    show "j < Suc m" using Suc.prems(1) n by simp
    show "\<forall>i<j. isl (fst (attempt (envs (Suc k + i))))"
      using Suc.prems(2) by (metis Suc_less_eq add_Suc_shift)
    show "fst (attempt (envs (Suc k + j))) = Inr rows" using Suc.prems(3) by simp
  qed
  with a n show ?case by (simp add: retryLoop_Suc_Inl_more del: retryLoop.simps)
qed

lemma retryLoop_all_fail:
  "\<forall>i<n. isl (fst (attempt (envs (k + i)))) \<Longrightarrow>
   fst (attempt (envs (k + n))) = Inl e \<Longrightarrow>
   fst (retryLoop (Suc n) k envs) = Inl e
   \<and> count_list (snd (retryLoop (Suc n) k envs)) GotoDirectory = Suc n
   \<and> List.map_filter attemptsLeft (snd (retryLoop (Suc n) k envs)) = rev [0..<Suc n]"
proof (induction n arbitrary: k)
  case 0
  then obtain tr where a: "attempt (envs k) = (Inl e, GotoDirectory # tr)" "list_all isInnerEvent tr"
    by (cases rule: attempt_cases [of "envs k"]) auto
  then show ?case using inner_count [of tr]
    by (simp add: map_filter_append List.map_filter_simps)
next
  case (Suc n)
  from Suc.prems(1) have "isl (fst (attempt (envs k)))" by force
  then obtain e' tr where a: "attempt (envs k) = (Inl e', GotoDirectory # tr)" "list_all isInnerEvent tr"
    by (cases rule: attempt_cases [of "envs k"]) auto
  have ih: "fst (retryLoop (Suc n) (Suc k) envs) = Inl e
   \<and> count_list (snd (retryLoop (Suc n) (Suc k) envs)) GotoDirectory = Suc n
   \<and> List.map_filter attemptsLeft (snd (retryLoop (Suc n) (Suc k) envs)) = rev [0..<Suc n]"
  proof (rule Suc.IH)
    show "\<forall>i<n. isl (fst (attempt (envs (Suc k + i))))"
      using Suc.prems(1) by (metis Suc_less_eq add_Suc_shift)
    show "fst (attempt (envs (Suc k + n))) = Inl e" using Suc.prems(2) by simp
  qed
  show ?case
    using a ih inner_count [of tr]
    by (simp add: retryLoop_Suc_Inl_more map_filter_append List.map_filter_simps del: retryLoop.simps)
qed

lemma retryLoop_defined: "fst (retryLoop (Suc n) k envs) \<noteq> Inr None"
proof (induction n arbitrary: k)
  case 0
  show ?case by (cases "attempt (envs k)"; cases "fst (attempt (envs k))") auto
next
  case (Suc n)
  show ?case
  proof (cases rule: attempt_cases [of "envs k"])
    case (1 e tr)
    then show ?thesis using Suc [of "Suc k"]
      by (simp add: retryLoop_Suc_Inl_more del: retryLoop.simps)
  next
    case (2 rows tr)
    then show ?thesis by simp
  qed
qed

section \<open>Trimming and label lookup\<close>

lemma str_space: "str '' '' = [0x20]"
  by (simp add: str_def)

lemma isWhiteSpace_space: "isWhiteSpace 0x20"
  by (simp add: isWhiteSpace_def)

lemma trim_Nil: "trim [] = []"
  by (simp add: trim_def)

lemma trim_space_Cons: "trim (0x20 # s) = trim s"
  by (simp add: trim_def isWhiteSpace_space)

lemma trim_snoc_space: "trim (s @ [0x20]) = trim s"
proof (cases "dropWhile isWhiteSpace s = []")
  case True
  then have "\<forall>c \<in> set s. isWhiteSpace c" by (simp add: dropWhile_eq_Nil_conv)
  then have "dropWhile isWhiteSpace (s @ [0x20]) = []"
    by (simp add: dropWhile_eq_Nil_conv isWhiteSpace_space)
  then show ?thesis unfolding trim_def True by simp
next
  case False
  then obtain c where c: "c \<in> set s" "\<not> isWhiteSpace c"
    by (auto simp: dropWhile_eq_Nil_conv)
  then have "dropWhile isWhiteSpace (s @ [0x20]) = dropWhile isWhiteSpace s @ [0x20]"
    by (simp add: dropWhile_append1)
  then show ?thesis by (simp add: trim_def isWhiteSpace_space)
qed

lemma trim_idem: "trim (trim s) = trim s"
proof (cases "trim s = []")
  case True
  then show ?thesis by (simp add: trim_Nil)
next
  case False
  define t where "t = dropWhile isWhiteSpace s"
  define u where "u = dropWhile isWhiteSpace (rev t)"
  have ts: "trim s = rev u" by (simp add: trim_def t_def u_def)
  with False have une: "u \<noteq> []" by simp
  then have hu: "\<not> isWhiteSpace (hd u)" unfolding u_def by (rule hd_dropWhile)
  from une have tne: "t \<noteq> []" by (auto simp: u_def)
  then have ht: "\<not> isWhiteSpace (hd t)" unfolding t_def by (rule hd_dropWhile)
  obtain w where w: "rev t = w @ u" unfolding u_def
    by (metis takeWhile_dropWhile_id)
  then have "t = rev u @ rev w" by (metis rev_append rev_rev_ident)
  with une have "hd (rev u) = hd t" by simp
  with ht have "dropWhile isWhiteSpace (rev u) = rev u"
    using une by (simp add: dropWhile_eq_self_iff)
  moreover have "dropWhile isWhiteSpace u = u" using hu by (simp add: dropWhile_eq_self_iff)
  ultimately have "trim (rev u) = rev u" by (simp add: trim_def)
  then show ?thesis by (simp only: ts)
qed

lemma orEmpty_Some: "orEmpty (Some s) = s"
  by (simp add: orEmpty_def js_or_def)

lemma contactName_empty_last: "contactName firstName [] = trim firstName"
  by (simp add: contactName_def str_space trim_snoc_space)

lemma contactName_empty_first: "contactName [] lastName = trim lastName"
  by (simp add: contactName_def str_space trim_space_Cons)

lemma getTextLoop_trimmed: "trim (getTextLoop label es) = getTextLoop label es"
  by (induction label es rule: getTextLoop.induct)
     (auto simp: trim_Nil trim_idem split: option.splits)

lemma getText_trimmed: "trim (getText doc label) = getText doc label"
  by (simp add: getText_def getTextLoop_trimmed)

lemma getTextLoop_skip:
  "\<forall>x \<in> set pre. \<not> labelMatches label (fst x) \<or> snd x = (None, None) \<Longrightarrow>
   getTextLoop label (pre @ rest) = getTextLoop label rest"
  by (induction pre) (auto split: option.splits)

lemma getTextLoop_absent:
  "\<forall>x \<in> set es. \<not> labelMatches label (fst x) \<or> snd x = (None, None) \<Longrightarrow> getTextLoop label es = []"
  using getTextLoop_skip [of es label "[]"] by simp

section \<open>Attempts and the whole scrape\<close>

lemma gotos_inner_free:
  "List.map_filter gotoTarget (snd (collectMemberLinks env)) = []"
  by (simp add: collectMemberLinks_def List.map_filter_simps split: option.splits sum.splits prod.splits)

lemma walk_gotos: "List.map_filter gotoTarget (snd (walkMembers env links 0 [] [])) = links"
  by (simp add: walkMembers_unfold map_filter_concat_visits map_nth)

lemma attempt_gotos:
  "directoryGoto env = None \<Longrightarrow> debugSteps env = None \<Longrightarrow>
   List.map_filter gotoTarget (snd (attempt env)) = fst (collectMemberLinks env)"
  using gotos_inner_free [of env] walk_gotos [of "profiles env" "fst (collectMemberLinks env)"]
  by (cases "collectMemberLinks env";
      cases "walkMembers (profiles env) (fst (collectMemberLinks env)) 0 [] []")
     (auto simp: attempt_def map_filter_append List.map_filter_simps split: option.splits)

lemma attempt_zero_links:
  "fst (collectMemberLinks env) = [] \<Longrightarrow>
   (\<forall>rows. fst (attempt env) = Inr rows \<longrightarrow> rows = [])
   \<and> List.map_filter gotoTarget (snd (attempt env)) = []"
  using gotos_inner_free [of env]
  by (cases "collectMemberLinks env")
     (auto simp: attempt_def map_filter_append List.map_filter_simps split: option.splits)

lemma attempt_zero_links_clean:
  "fst (collectMemberLinks env) = [] \<Longrightarrow> directoryGoto env = None \<Longrightarrow> debugSteps env = None \<Longrightarrow>
   noLinksShot env = None \<Longrightarrow> fst (attempt env) = Inr []"
  by (cases "collectMemberLinks env") (auto simp: attempt_def)

lemma attempt_closes:
  "fst (attempt env) = Inr rows \<Longrightarrow> fst (collectMemberLinks env) \<noteq> [] \<Longrightarrow>
   last (snd (attempt env)) = CloseBrowser"
  by (cases "collectMemberLinks env";
      cases "walkMembers (profiles env) (fst (collectMemberLinks env)) 0 [] []")
     (auto simp: attempt_def split: option.splits)

lemma attempt_nonempty_closes:
  "fst (attempt env) = Inr rows \<Longrightarrow> rows \<noteq> [] \<Longrightarrow> last (snd (attempt env)) = CloseBrowser"
  using attempt_closes [of env rows] attempt_zero_links [of env] by blast

lemma retryLoop_zero_links:
  "\<forall>i<n. fst (collectMemberLinks (envs (k + i))) = [] \<Longrightarrow>
   (\<forall>rows. fst (retryLoop n k envs) = Inr (Some rows) \<longrightarrow> rows = [])
   \<and> List.map_filter gotoTarget (snd (retryLoop n k envs)) = []"
proof (induction n arbitrary: k)
  case 0
  show ?case by (simp add: List.map_filter_simps)
next
  case (Suc n)
  from Suc.prems have z: "fst (collectMemberLinks (envs k)) = []" by force
  have rest: "\<forall>i<n. fst (collectMemberLinks (envs (Suc k + i))) = []"
    using Suc.prems by (metis Suc_less_eq add_Suc_shift)
  show ?case
  proof (cases "attempt (envs k)")
    case (Pair r tr)
    show ?thesis
    proof (cases r)
      case (Inr rows)
      with Pair attempt_zero_links [OF z] show ?thesis by simp
    next
      case (Inl e)
      show ?thesis
      proof (cases n)
        case 0
        with Pair Inl attempt_zero_links [OF z] show ?thesis
          by (simp add: map_filter_append List.map_filter_simps)
      next
        case (Suc m)
        with Pair Inl attempt_zero_links [OF z] Suc.IH [OF rest] show ?thesis
          by (simp add: retryLoop_Suc_Inl_more map_filter_append List.map_filter_simps
                   del: retryLoop.simps)
      qed
    qed
  qed
qed

lemma retryLoop_closes:
  "fst (retryLoop n k envs) = Inr (Some rows) \<Longrightarrow> rows \<noteq> [] \<Longrightarrow>
   last (snd (retryLoop n k envs)) = CloseBrowser"
proof (induction n arbitrary: k)
  case 0
  then show ?case by simp
next
  case (Suc n)
  show ?case
  proof (cases "attempt (envs k)")
    case (Pair r tr)
    show ?thesis
    proof (cases r)
      case (Inr rows')
      with Pair Suc.prems attempt_nonempty_closes [of "envs k" rows] show ?thesis by simp
    next
      case (Inl e)
      show ?thesis
      proof (cases n)
        case 0
        with Pair Inl Suc.prems show ?thesis by simp
      next
        case (Suc m)
        with Pair Inl Suc.prems have r: "fst (retryLoop n (Suc k) envs) = Inr (Some rows)"
          by (simp add: retryLoop_Suc_Inl_more del: retryLoop.simps)
        then have ne: "snd (retryLoop n (Suc k) envs) \<noteq> []"
          using Suc by (cases "attempt (envs (Suc k))"; cases "fst (attempt (envs (Suc k)))")
            (use attempt_trace [of "envs (Suc k)"] in \<open>auto simp: case_prod_beta split: if_splits\<close>)
        from Suc.IH [OF r Suc.prems(2)] ne Pair Inl Suc show ?thesis
          by (simp add: retryLoop_Suc_Inl_more del: retryLoop.simps)
      qed
    qed
  qed
qed

lemma retryLoop_first_success_count:
  "j < n \<Longrightarrow> \<forall>i<j. isl (fst (attempt (envs (k + i)))) \<Longrightarrow>
   fst (attempt (envs (k + j))) = Inr rows \<Longrightarrow>
   count_list (snd (retryLoop n k envs)) GotoDirectory = Suc j"
proof (induction j arbitrary: n k)
  case 0
  then obtain m where n: "n = Suc m" by (cases n) auto
  from 0 obtain tr where "attempt (envs k) = (Inr rows, GotoDirectory # tr)" "list_all isInnerEvent tr"
    by (cases rule: attempt_cases [of "envs k"]) auto
  with n show ?case using inner_count [of tr] by simp
next
  case (Suc j)
  then obtain m where n: "n = Suc (Suc m)" by (cases n; cases "n - 1") auto
  from Suc.prems(2) have "isl (fst (attempt (envs k)))" by force
  then obtain e tr where a: "attempt (envs k) = (Inl e, GotoDirectory # tr)" "list_all isInnerEvent tr"
    by (cases rule: attempt_cases [of "envs k"]) auto
  have "count_list (snd (retryLoop (Suc m) (Suc k) envs)) GotoDirectory = Suc j"
  proof (rule Suc.IH)
    show "j < Suc m" using Suc.prems(1) n by simp
    show "\<forall>i<j. isl (fst (attempt (envs (Suc k + i))))"
      using Suc.prems(2) by (metis Suc_less_eq add_Suc_shift)
    show "fst (attempt (envs (Suc k + j))) = Inr rows" using Suc.prems(3) by simp
  qed
  with a n show ?case using inner_count [of tr]
    by (simp add: retryLoop_Suc_Inl_more del: retryLoop.simps)
qed

text \<open>Facts about the whole scrape.\<close>

lemma scrapeData_ready:
  "launch env = None \<Longrightarrow> newPage env = None \<Longrightarrow> setUserAgent env = None \<Longrightarrow>
   scrapeData env = (fst (retryLoop 3 0 (attempts env)), [Launch, NewPage] @ snd (retryLoop 3 0 (attempts env)))"
  by (simp add: scrapeData_def case_prod_beta del: retryLoop.simps)

lemma scrapeData_cases:
  obtains e where "scrapeData env = (Inl e, [Launch])"
  | e where "scrapeData env = (Inl e, [Launch, NewPage])"
  | "scrapeData env = (fst (retryLoop 3 0 (attempts env)), [Launch, NewPage] @ snd (retryLoop 3 0 (attempts env)))"
  by (cases "launch env"; cases "newPage env"; cases "setUserAgent env")
     (auto simp: scrapeData_def case_prod_beta simp del: retryLoop.simps)

lemma scrapeData_trace:
  "count_list (snd (scrapeData env)) GotoDirectory \<le> 3
   \<and> count_list (snd (scrapeData env)) Launch = 1
   \<and> count_list (snd (scrapeData env)) NewPage \<le> 1
   \<and> hd (snd (scrapeData env)) = Launch
   \<and> \<not> list_ex isSinkEvent (snd (scrapeData env))
   \<and> \<not> list_ex isRunFailure (snd (scrapeData env))"
  using retryLoop_bound [of 3 0 "attempts env"]
  by (cases env rule: scrapeData_cases) (simp_all del: retryLoop.simps)

lemma scrapeData_page:
  "launch env = None \<Longrightarrow>
   take 2 (snd (scrapeData env)) = [Launch, NewPage]
   \<and> count_list (snd (scrapeData env)) NewPage = 1
   \<and> count_list (drop 2 (snd (scrapeData env))) Launch = 0
   \<and> count_list (drop 2 (snd (scrapeData env))) NewPage = 0"
  using retryLoop_bound [of 3 0 "attempts env"]
  by (cases "newPage env"; cases "setUserAgent env")
     (simp_all add: scrapeData_def case_prod_beta del: retryLoop.simps)

lemma scrapeData_defined: "fst (scrapeData env) \<noteq> Inr None"
  using retryLoop_defined [of 2 0 "attempts env"]
  by (cases env rule: scrapeData_cases) (simp_all add: numeral_3_eq_3 del: retryLoop.simps)

lemma sheet_is_sink: "isSheetEvent x \<Longrightarrow> isSinkEvent x"
  by (cases x rule: isSheetEvent.cases) simp_all

lemma no_sink_no_sheet: "\<not> list_ex isSinkEvent tr \<Longrightarrow> \<not> list_ex isSheetEvent tr"
  by (auto simp: list_ex_iff dest: sheet_is_sink)

lemma main_on_error:
  "fst (scrapeData env) = Inl e \<Longrightarrow>
   main env = snd (scrapeData env) @ [Log (ErrorScraping e)] \<and> \<not> list_ex isSinkEvent (main env)"
  using scrapeData_trace [of env]
  by (cases "scrapeData env") (simp add: main_def)

lemma main_on_empty:
  "fst (scrapeData env) = Inr (Some []) \<Longrightarrow>
   main env = snd (scrapeData env) @ [Log NoData] \<and> \<not> list_ex isSinkEvent (main env)"
  using scrapeData_trace [of env]
  by (cases "scrapeData env") (simp add: main_def)

lemma saveToGoogleSheet_trace:
  "fst (saveToGoogleSheet env rows) = None
   \<and> hd (snd (saveToGoogleSheet env rows)) = SaveToGoogleSheet rows
   \<and> \<not> list_ex isRunFailure (snd (saveToGoogleSheet env rows))
   \<and> (\<forall>e. fst (sheetBody env rows) = Some e \<longrightarrow>
        last (snd (saveToGoogleSheet env rows)) = Log (SheetError e))"
  by (simp add: saveToGoogleSheet_def sheetBody_def split: option.splits)

section \<open>The examples, evaluated\<close>

lemma ex_links_distinct:
  "exLinkA \<noteq> exLinkB" "exLinkB \<noteq> exLinkA" "exLinkB \<noteq> exLinkC" "exLinkC \<noteq> exLinkB"
  "exLinkA \<noteq> exLinkC" "exLinkC \<noteq> exLinkA"
  by (simp_all add: exLinkA_def exLinkB_def exLinkC_def str_def)

lemma ex_pageMemberLinks:
  "pageMemberLinks [str ''/about'', exLinkA, exLinkB] = [exLinkA, exLinkB]
   \<and> pageMemberLinks [exLinkB, [], exLinkC] = [exLinkB, exLinkC]"
  by (simp add: pageMemberLinks_def exLinkA_def exLinkB_def exLinkC_def str_def)

lemma ex_collect:
  "collectMemberLinks exAttempt = ([exLinkA, exLinkB, exLinkC], [])"
  by (simp add: collectMemberLinks_def exAttempt_def exOption10_def exOption25_def
        ex_pageMemberLinks addUniqueLinks_def ex_links_distinct)

lemma ex_collect_partial:
  "collectMemberLinks exAttemptPartial
     = ([exLinkA, exLinkB], [Log (PaginationError (Error ''detached''))])"
  by (simp add: collectMemberLinks_def exAttemptPartial_def exAttempt_def exOption10_def
        exOptionBad_def ex_pageMemberLinks addUniqueLinks_def ex_links_distinct)

lemma ex_collect_shot:
  "collectMemberLinks exAttemptShot
     = ([exLinkA, exLinkB, exLinkC], [Log (PaginationError (Error ''disk''))])"
  by (simp add: collectMemberLinks_def exAttemptShot_def exAttempt_def exOption10_def
        exOptionShot_def ex_pageMemberLinks addUniqueLinks_def ex_links_distinct)

lemma ex_walk:
  "walkMembers exProfiles [exLinkA, exLinkB, exLinkC] 0 [] []
     = ([memberInfo exDocument, memberInfo exDocument],
        [GotoProfile exLinkA, GotoProfile exLinkB, Log (MemberError 2 (Error ''timeout'')),
         GotoProfile exLinkC])"
  by (simp add: walkMembers.simps visitMember_def exProfiles_def)

lemma ex_attempt_fields:
  "directoryGoto exAttempt = None" "debugSteps exAttempt = None" "noLinksShot exAttempt = None"
  "browserClose exAttempt = None" "profiles exAttempt = exProfiles"
  by (simp_all add: exAttempt_def)

lemma ex_attempt:
  "attempt exAttempt
     = (Inr [memberInfo exDocument, memberInfo exDocument],
        [GotoDirectory, GotoProfile exLinkA, GotoProfile exLinkB,
         Log (MemberError 2 (Error ''timeout'')), GotoProfile exLinkC, CloseBrowser])"
  by (simp add: attempt_def ex_collect ex_attempt_fields ex_walk)

lemma ex_attempt_down: "attempt exAttemptDown = (Inl (Error ''net''), [GotoDirectory])"
  by (simp add: attempt_def exAttemptDown_def)

lemma ex_attempt_empty: "attempt exAttemptEmpty = (Inr [], [GotoDirectory, Log NoLinksFound])"
  by (simp add: attempt_def collectMemberLinks_def exAttemptEmpty_def exAttempt_def)

lemma ex_document:
  "memberInfo exDocument
     = \<lparr> company = str ''Acme Signs'', contact = str ''Jane Doe'', phone = [],
         email = str ''jane@acme.com'', city = [], province = [], website = [], memberType = [] \<rparr>"
  by code_simp

lemma ex_run_fields:
  "launch exRun = None" "newPage exRun = None" "setUserAgent exRun = None"
  "attempts exRun k = exAttempt" "writeRecords exRun = None" "getClient exRun = Some (Error ''auth'')"
  by (simp_all add: exRun_def)

lemma ex_scrape:
  "scrapeData exRun
     = (Inr (Some [memberInfo exDocument, memberInfo exDocument]),
        [Launch, NewPage, GotoDirectory, GotoProfile exLinkA, GotoProfile exLinkB,
         Log (MemberError 2 (Error ''timeout'')), GotoProfile exLinkC, CloseBrowser])"
  by (simp add: scrapeData_def ex_run_fields numeral_3_eq_3 ex_attempt)

lemma ex_scrape_file_fails: "scrapeData exRunFileFails = scrapeData exRun"
  by (simp add: scrapeData_def exRunFileFails_def exRun_def del: retryLoop.simps)

lemma ex_scrape_retry:
  "scrapeData exRunRetry
     = (Inr (Some [memberInfo exDocument, memberInfo exDocument]),
        [Launch, NewPage, GotoDirectory, Log (Retrying 2), GotoDirectory, GotoProfile exLinkA,
         GotoProfile exLinkB, Log (MemberError 2 (Error ''timeout'')), GotoProfile exLinkC,
         CloseBrowser])"
  by (simp add: scrapeData_def exRunRetry_def exRun_def numeral_3_eq_3 ex_attempt ex_attempt_down)

lemma ex_scrape_down:
  "scrapeData exRunDown
     = (Inl (Error ''net''),
        [Launch, NewPage, GotoDirectory, Log (Retrying 2), GotoDirectory, Log (Retrying 1),
         GotoDirectory, Log (Retrying 0)])"
  by (simp add: scrapeData_def exRunDown_def exRun_def numeral_3_eq_3 ex_attempt_down)

lemma ex_scrape_empty:
  "scrapeData exRunEmpty = (Inr (Some []), [Launch, NewPage, GotoDirectory, Log NoLinksFound])"
  by (simp add: scrapeData_def exRunEmpty_def exRun_def numeral_3_eq_3 ex_attempt_empty)

lemma ex_duplicate_elements:
  "querySelectorAll exDuplicate
     = [(Elem ''div'' [Elem ''span'' [Text (str ''Email'')], Elem ''span'' [Text (str ''a@x'')]],
         Some (Elem ''div'' [Elem ''span'' [Text (str ''Email'')], Elem ''span'' [Text (str ''b@y'')]]),
         None)]
       @ (Elem ''span'' [Text (str ''Email'')], Some (Elem ''span'' [Text (str ''a@x'')]),
          Some (Elem ''div'' [Elem ''span'' [Text (str ''Email'')], Elem ''span'' [Text (str ''b@y'')]]))
       # [(Elem ''span'' [Text (str ''a@x'')], None,
           Some (Elem ''div'' [Elem ''span'' [Text (str ''Email'')], Elem ''span'' [Text (str ''b@y'')]])),
          (Elem ''div'' [Elem ''span'' [Text (str ''Email'')], Elem ''span'' [Text (str ''b@y'')]],
           None, None),
          (Elem ''span'' [Text (str ''Email'')], Some (Elem ''span'' [Text (str ''b@y'')]), None),
          (Elem ''span'' [Text (str ''b@y'')], None, None)]"
  by (simp add: querySelectorAll_def exDuplicate_def)

lemma ex_duplicate_getText: "getText exDuplicate (str ''Email'') = str ''a@x''"
  by code_simp

lemma ex_label_span: "labelMatches (str ''Email'') (Elem ''span'' [Text (str ''Email'')])"
  by code_simp

lemma ex_label_div:
  "\<not> labelMatches (str ''Email'')
       (Elem ''div'' [Elem ''span'' [Text (str ''Email'')], Elem ''span'' [Text (str ''a@x'')]])"
  by code_simp

lemma ex_trim_values:
  "trim (textContent (Elem ''span'' [Text (str ''a@x'')])) = str ''a@x''"
  "trim (textContent (Elem ''span'' [Text (str ''b@y'')])) = str ''b@y''"
  "trim (str ''a@x'') = str ''a@x''" "trim (str ''b@y'') = str ''b@y''"
  "str ''a@x'' \<noteq> str ''b@y''"
  by code_simp+

lemma ex_heading_one:
  "querySelector ''h1'' exHeadingOne = Some (Elem ''h1'' [Text (str ''Acme Signs'')])"
  "querySelector ''h3'' exHeadingOne = None" "querySelector ''h2'' exHeadingOne = None"
  "trim (textContent (Elem ''h1'' [Text (str ''Acme Signs'')])) = str ''Acme Signs''"
  "str ''Acme Signs'' \<noteq> []"
  by code_simp+

lemma ex_document_heading:
  "querySelector ''h3'' exDocument = Some (Elem ''h3'' [Text (str '' Acme Signs '')])"
  "trim (textContent (Elem ''h3'' [Text (str '' Acme Signs '')])) = str ''Acme Signs''"
  by code_simp+

lemma ex_absent: "\<forall>x \<in> set (querySelectorAll exDuplicate). \<not> labelMatches (str ''City'') (fst x)"
  by code_simp

lemma ex_parent_elements:
  "querySelectorAll exParentSibling
     = [(Elem ''p'' [Text (str ''In ''), Elem ''b'' [Text (str ''City'')]],
         Some (Elem ''p'' [Text (str '' Toronto'')]), None)]
       @ (Elem ''b'' [Text (str ''City'')], None, Some (Elem ''p'' [Text (str '' Toronto'')]))
       # [(Elem ''p'' [Text (str '' Toronto'')], None, None)]"
  by (simp add: querySelectorAll_def exParentSibling_def)

lemma ex_parent_labels:
  "\<not> labelMatches (str ''City'') (Elem ''p'' [Text (str ''In ''), Elem ''b'' [Text (str ''City'')]])"
  "labelMatches (str ''City'') (Elem ''b'' [Text (str ''City'')])"
  "trim (textContent (Elem ''p'' [Text (str '' Toronto'')])) = str ''Toronto''"
  by code_simp+

lemma ex_heading_two:
  "querySelector ''h3'' exHeadingTwo = Some (Elem ''h3'' [Text (str ''  '')])"
  "trim (textContent (Elem ''h3'' [Text (str ''  '')])) = []"
  "querySelector ''h2'' exHeadingTwo = Some (Elem ''h2'' [Text (str ''Beta Neon'')])"
  "trim (textContent (Elem ''h2'' [Text (str ''Beta Neon'')])) = str ''Beta Neon''"
  by code_simp+

section \<open>The claims\<close>

text \<open>
  Claim C1. For every list of links and every pattern of navigation and extraction failures,
  the profile walk navigates to each link exactly once, in collection order; the records it
  returns are those of the links whose navigation and extraction both succeeded, in the
  order of their links, so there are at most as many records as links; a failing link
  contributes nothing and the walk goes on with the next link.
\<close>

theorem walkMembers_skips_failures:
  "List.map_filter gotoTarget (snd (walkMembers env links 0 [] [])) = links
   \<and> fst (walkMembers env links 0 [] [])
       = List.map_filter
           (\<lambda>i. case profileGoto (env i) of
                   Some e \<Rightarrow> None
                 | None \<Rightarrow> (case profileDocument (env i) of
                              Inl e \<Rightarrow> None
                            | Inr doc \<Rightarrow> Some (memberInfo doc)))
           [0..<length links]
   \<and> length (fst (walkMembers env links 0 [] [])) \<le> length links"
proof -
  have f: "(\<lambda>j. fst (visitMember (env j) j (links ! j)))
             = (\<lambda>i. case profileGoto (env i) of
                   Some e \<Rightarrow> None
                 | None \<Rightarrow> (case profileDocument (env i) of
                              Inl e \<Rightarrow> None
                            | Inr doc \<Rightarrow> Some (memberInfo doc)))"
    by (rule ext) (simp add: visitMember_def split: option.splits sum.splits)
  show ?thesis
    using length_map_filter_le [of _ "[0..<length links]"]
    by (simp add: walk_gotos) (simp add: walkMembers_unfold f)
qed

theorem walkMembers_skips_failures_witness:
  "List.map_filter gotoTarget (snd (walkMembers exProfiles [exLinkA, exLinkB, exLinkC] 0 [] []))
     = [exLinkA, exLinkB, exLinkC]
   \<and> fst (walkMembers exProfiles [exLinkA, exLinkB, exLinkC] 0 [] [])
     = [memberInfo exDocument, memberInfo exDocument]
   \<and> length (fst (walkMembers exProfiles [exLinkA, exLinkB, exLinkC] 0 [] [])) \<le> 3"
  using walkMembers_skips_failures [of exProfiles "[exLinkA, exLinkB, exLinkC]"]
  by (simp add: exProfiles_def List.map_filter_simps upt_conv_Cons)

text \<open>
  Claim C2. The accumulated link collection never holds a link twice, whatever the
  pagination options surface and wherever the enumeration stops; when every option is
  processed, it is the links of all pages in the order of their first discovery; pages
  yielding A, B and then B, C give exactly A, B, C.
\<close>

theorem linkset_distinct_discovery_order:
  "distinct (fst (collectMemberLinks env))
   \<and> (waitForSelector env = None \<and> selectOptions env = Inr opts
        \<and> (\<forall>opt \<in> set opts. selectOption opt = None \<and> optionShot opt = None)
        \<and> map anchorHrefs opts = map Inr hrefss
      \<longrightarrow> fst (collectMemberLinks env) = spec_firstDiscovery (concat (map pageMemberLinks hrefss)))
   \<and> (a \<noteq> b \<and> b \<noteq> c \<and> a \<noteq> c \<longrightarrow> addUniqueLinks (addUniqueLinks [] [a, b]) [b, c] = [a, b, c])"
proof -
  have 1: "distinct (fst (collectMemberLinks env))" by (rule distinct_collectMemberLinks)
  have 2: "waitForSelector env = None \<and> selectOptions env = Inr opts
        \<and> (\<forall>opt \<in> set opts. selectOption opt = None \<and> optionShot opt = None)
        \<and> map anchorHrefs opts = map Inr hrefss
      \<longrightarrow> fst (collectMemberLinks env) = spec_firstDiscovery (concat (map pageMemberLinks hrefss))"
    using paginationLoop_ok [of opts hrefss "[]"]
    by (auto simp: collectMemberLinks_def)
  have 3: "a \<noteq> b \<and> b \<noteq> c \<and> a \<noteq> c \<longrightarrow> addUniqueLinks (addUniqueLinks [] [a, b]) [b, c] = [a, b, c]"
    by (auto simp: addUniqueLinks_def)
  from 1 2 3 show ?thesis by blast
qed

theorem linkset_distinct_discovery_order_witness:
  "distinct (fst (collectMemberLinks exAttempt))
   \<and> waitForSelector exAttempt = None \<and> selectOptions exAttempt = Inr [exOption10, exOption25]
   \<and> selectOption exOption10 = None \<and> optionShot exOption10 = None
   \<and> selectOption exOption25 = None \<and> optionShot exOption25 = None
   \<and> map anchorHrefs [exOption10, exOption25]
        = map Inr [[str ''/about'', exLinkA, exLinkB], [exLinkB, [], exLinkC]]
   \<and> fst (collectMemberLinks exAttempt) = [exLinkA, exLinkB, exLinkC]
   \<and> exLinkA \<noteq> exLinkB \<and> exLinkB \<noteq> exLinkC \<and> exLinkA \<noteq> exLinkC
   \<and> addUniqueLinks (addUniqueLinks [] [exLinkA, exLinkB]) [exLinkB, exLinkC]
        = [exLinkA, exLinkB, exLinkC]"
  using linkset_distinct_discovery_order
          [of exAttempt "[exOption10, exOption25]"
              "[[str ''/about'', exLinkA, exLinkB], [exLinkB, [], exLinkC]]" exLinkA exLinkB exLinkC]
  by (simp add: ex_links_distinct ex_collect)
     (simp add: exAttempt_def exOption10_def exOption25_def)

text \<open>
  Claim C3. The contact field is the trim of the extracted first name, one space and the
  extracted last name; with an empty last name it is the trimmed first name, with an empty
  first name the trimmed last name, and with both empty the empty string. Extracted values
  are already trimmed.
\<close>

theorem contact_trim_join:
  "contact (memberInfo doc)
     = trim (getText doc (str ''First name'') @ str '' '' @ getText doc (str ''Last name''))
   \<and> contactName firstName [] = trim firstName
   \<and> contactName [] lastName = trim lastName
   \<and> contactName (str ''Jane'') [] = str ''Jane''
   \<and> contactName [] (str ''Doe'') = str ''Doe''
   \<and> contactName [] [] = []
   \<and> contactName (str ''Jane'') (str ''Doe'') = str ''Jane Doe''
   \<and> trim (getText doc label) = getText doc label"
proof -
  have a: "contact (memberInfo doc)
     = trim (getText doc (str ''First name'') @ str '' '' @ getText doc (str ''Last name''))"
    by (simp add: memberInfo_def orEmpty_Some contactName_def)
  have b: "contactName (str ''Jane'') [] = str ''Jane''"
    by (simp add: contactName_def trim_def str_def isWhiteSpace_def)
  have c: "contactName [] (str ''Doe'') = str ''Doe''"
    by (simp add: contactName_def trim_def str_def isWhiteSpace_def)
  have d: "contactName [] [] = []"
    by (simp add: contactName_def trim_def str_def isWhiteSpace_def)
  have e: "contactName (str ''Jane'') (str ''Doe'') = str ''Jane Doe''"
    by (simp add: contactName_def trim_def str_def isWhiteSpace_def)
  from a b c d e show ?thesis
    by (simp only: contactName_empty_last contactName_empty_first getText_trimmed simp_thms)
qed

theorem contact_trim_join_witness:
  "contact (memberInfo exDocument) = str ''Jane Doe''
   \<and> contactName (str ''Jane'') [] = str ''Jane''"
proof -
  have g: "getText exDocument (str ''First name'') = str ''Jane''"
    "getText exDocument (str ''Last name'') = str ''Doe''"
    "trim (str ''Jane'' @ str '' '' @ str ''Doe'') = str ''Jane Doe''"
    by code_simp+
  have "contact (memberInfo exDocument)
          = trim (getText exDocument (str ''First name'') @ str '' ''
                  @ getText exDocument (str ''Last name''))"
    using contact_trim_join [of exDocument] by blast
  then have 1: "contact (memberInfo exDocument) = str ''Jane Doe''"
    by (simp only: g)
  have 2: "contactName (str ''Jane'') [] = str ''Jane''"
    using contact_trim_join [of exDocument] by blast
  from 1 2 show ?thesis by blast
qed

text \<open>
  Claim C4, in the form the code supports. The label lookup is total and returns a string.
  When no element has the label as its non-empty trimmed text the result is the empty
  string; otherwise the result is decided by the first element in document order that has
  the label as its trimmed text and has a following sibling element or a parent with one: it
  is the trimmed text of that following sibling, or, when there is none, of the following
  sibling of the parent. The email, city, province and website fields are these lookups;
  phone and member type are empty.
\<close>

theorem getText_first_usable_match:
  "((\<forall>x \<in> set (querySelectorAll doc). \<not> labelMatches label (fst x)) \<longrightarrow> getText doc label = [])
   \<and> (querySelectorAll doc = pre @ (el, nextEl, parentNext) # post
        \<and> (\<forall>x \<in> set pre. \<not> labelMatches label (fst x) \<or> snd x = (None, None))
        \<and> labelMatches label el
      \<longrightarrow> (\<forall>n. nextEl = Some n \<longrightarrow> getText doc label = trim (textContent n))
        \<and> (\<forall>p. nextEl = None \<and> parentNext = Some p \<longrightarrow> getText doc label = trim (textContent p)))
   \<and> email (memberInfo doc) = getText doc (str ''Email'')
   \<and> city (memberInfo doc) = getText doc (str ''City'')
   \<and> province (memberInfo doc) = getText doc (str ''Province/State'')
   \<and> website (memberInfo doc) = getText doc (str ''Web Site'')
   \<and> phone (memberInfo doc) = [] \<and> memberType (memberInfo doc) = []
   \<and> js_or a (Some []) \<noteq> None"
proof -
  have 1: "(\<forall>x \<in> set (querySelectorAll doc). \<not> labelMatches label (fst x)) \<longrightarrow> getText doc label = []"
    by (simp add: getText_def getTextLoop_absent)
  have 2: "querySelectorAll doc = pre @ (el, nextEl, parentNext) # post
        \<and> (\<forall>x \<in> set pre. \<not> labelMatches label (fst x) \<or> snd x = (None, None))
        \<and> labelMatches label el
      \<longrightarrow> (\<forall>n. nextEl = Some n \<longrightarrow> getText doc label = trim (textContent n))
        \<and> (\<forall>p. nextEl = None \<and> parentNext = Some p \<longrightarrow> getText doc label = trim (textContent p))"
    by (auto simp: getText_def getTextLoop_skip)
  have 3: "email (memberInfo doc) = getText doc (str ''Email'')
   \<and> city (memberInfo doc) = getText doc (str ''City'')
   \<and> province (memberInfo doc) = getText doc (str ''Province/State'')
   \<and> website (memberInfo doc) = getText doc (str ''Web Site'')
   \<and> phone (memberInfo doc) = [] \<and> memberType (memberInfo doc) = []"
    by (simp add: memberInfo_def orEmpty_Some)
  have 4: "js_or a (Some []) \<noteq> None"
    by (cases a) (simp_all add: js_or_def)
  from 1 2 3 4 show ?thesis by blast
qed

theorem getText_first_usable_match_witness:
  "list_all (\<lambda>x. \<not> labelMatches (str ''City'') (fst x)) (querySelectorAll exDuplicate)
   \<and> getText exDuplicate (str ''City'') = []
   \<and> labelMatches (str ''Email'') (Elem ''span'' [Text (str ''Email'')])
   \<and> getText exDuplicate (str ''Email'') = str ''a@x''
   \<and> labelMatches (str ''City'') (Elem ''b'' [Text (str ''City'')])
   \<and> getText exParentSibling (str ''City'') = str ''Toronto''"
proof -
  have 1: "getText exDuplicate (str ''City'') = []"
    using ex_absent getText_first_usable_match [of exDuplicate "str ''City''"] by blast
  have "\<forall>x \<in> set [(Elem ''div'' [Elem ''span'' [Text (str ''Email'')], Elem ''span'' [Text (str ''a@x'')]],
             Some (Elem ''div'' [Elem ''span'' [Text (str ''Email'')], Elem ''span'' [Text (str ''b@y'')]]),
             None :: node option)].
          \<not> labelMatches (str ''Email'') (fst x) \<or> snd x = (None, None)"
    using ex_label_div by simp
  then have "getText exDuplicate (str ''Email'')
               = trim (textContent (Elem ''span'' [Text (str ''a@x'')]))"
    using ex_duplicate_elements ex_label_span
      getText_first_usable_match [of exDuplicate "str ''Email''" _ "Elem ''span'' [Text (str ''Email'')]"
            "Some (Elem ''span'' [Text (str ''a@x'')])"]
    by blast
  then have 2: "getText exDuplicate (str ''Email'') = str ''a@x''"
    by (simp only: ex_trim_values)
  have "\<forall>x \<in> set [(Elem ''p'' [Text (str ''In ''), Elem ''b'' [Text (str ''City'')]],
             Some (Elem ''p'' [Text (str '' Toronto'')]), None :: node option)].
          \<not> labelMatches (str ''City'') (fst x) \<or> snd x = (None, None)"
    using ex_parent_labels(1) by simp
  then have "getText exParentSibling (str ''City'')
               = trim (textContent (Elem ''p'' [Text (str '' Toronto'')]))"
    using ex_parent_elements ex_parent_labels(2)
      getText_first_usable_match [of exParentSibling "str ''City''" _ "Elem ''b'' [Text (str ''City'')]" None
            "Some (Elem ''p'' [Text (str '' Toronto'')])"]
    by blast
  then have 3: "getText exParentSibling (str ''City'') = str ''Toronto''"
    by (simp only: ex_parent_labels)
  from ex_absent 1 ex_label_span 2 ex_parent_labels(2) 3 show ?thesis
    by (simp only: list_all_iff simp_thms)
qed

theorem getText_every_match_counterexample:
  "\<not> ((Elem ''span'' [Text (str ''Email'')], Some (Elem ''span'' [Text (str ''b@y'')]), None)
          \<in> set (querySelectorAll exDuplicate)
        \<and> labelMatches (str ''Email'') (Elem ''span'' [Text (str ''Email'')])
       \<longrightarrow> getText exDuplicate (str ''Email'')
             = trim (textContent (Elem ''span'' [Text (str ''b@y'')])))"
  by (simp add: ex_duplicate_elements ex_label_span ex_duplicate_getText ex_trim_values)

text \<open>
  Claim C5, in the form the code supports. The company field is the trimmed text of the
  first third-level heading (h3) when there is one and that text is not empty; otherwise it
  is the trimmed text of the first second-level heading (h2) when there is one, and the
  empty string when there is none.
\<close>

theorem company_h3_then_h2:
  "(\<forall>h. querySelector ''h3'' doc = Some h \<and> trim (textContent h) \<noteq> []
        \<longrightarrow> company (memberInfo doc) = trim (textContent h))
   \<and> (querySelector ''h3'' doc = None
        \<or> (\<exists>h. querySelector ''h3'' doc = Some h \<and> trim (textContent h) = [])
      \<longrightarrow> (\<forall>g. querySelector ''h2'' doc = Some g \<longrightarrow> company (memberInfo doc) = trim (textContent g))
        \<and> (querySelector ''h2'' doc = None \<longrightarrow> company (memberInfo doc) = []))"
  by (auto simp: memberInfo_def orEmpty_def js_or_def headingText_def)

theorem company_h3_then_h2_witness:
  "querySelector ''h3'' exDocument = Some (Elem ''h3'' [Text (str '' Acme Signs '')])
   \<and> trim (textContent (Elem ''h3'' [Text (str '' Acme Signs '')])) \<noteq> []
   \<and> company (memberInfo exDocument) = str ''Acme Signs''
   \<and> querySelector ''h3'' exHeadingTwo = Some (Elem ''h3'' [Text (str ''  '')])
   \<and> trim (textContent (Elem ''h3'' [Text (str ''  '')])) = []
   \<and> querySelector ''h2'' exHeadingTwo = Some (Elem ''h2'' [Text (str ''Beta Neon'')])
   \<and> company (memberInfo exHeadingTwo) = str ''Beta Neon''
   \<and> querySelector ''h3'' exHeadingOne = None \<and> querySelector ''h2'' exHeadingOne = None
   \<and> company (memberInfo exHeadingOne) = []"
proof -
  have ne: "trim (textContent (Elem ''h3'' [Text (str '' Acme Signs '')])) \<noteq> []"
    by (simp only: ex_document_heading ex_heading_one) simp
  have "company (memberInfo exDocument) = trim (textContent (Elem ''h3'' [Text (str '' Acme Signs '')]))"
    using company_h3_then_h2 [of exDocument] ex_document_heading(1) ne by blast
  then have 1: "company (memberInfo exDocument) = str ''Acme Signs''"
    by (simp only: ex_document_heading)
  have "company (memberInfo exHeadingTwo) = trim (textContent (Elem ''h2'' [Text (str ''Beta Neon'')]))"
    using company_h3_then_h2 [of exHeadingTwo] ex_heading_two(1-3) by blast
  then have 2: "company (memberInfo exHeadingTwo) = str ''Beta Neon''"
    by (simp only: ex_heading_two)
  have 3: "company (memberInfo exHeadingOne) = []"
    using company_h3_then_h2 [of exHeadingOne] ex_heading_one(2,3) by blast
  from ex_document_heading(1) ne 1 ex_heading_two(1-3) 2 ex_heading_one(2,3) 3
  show ?thesis by blast
qed

theorem company_first_level_heading_counterexample:
  "\<not> (querySelector ''h1'' exHeadingOne = Some (Elem ''h1'' [Text (str ''Acme Signs'')])
       \<longrightarrow> company (memberInfo exHeadingOne)
             = trim (textContent (Elem ''h1'' [Text (str ''Acme Signs'')])))"
proof -
  have "company (memberInfo exHeadingOne) = []" by code_simp
  then show ?thesis using ex_heading_one(1,4,5) by metis
qed

text \<open>
  Claim C6. With a non-empty record sequence the file sink runs first; when it fails the run
  ends with the failure reported and no spreadsheet event; when it succeeds the spreadsheet
  sink is invoked next, whatever that sink's body throws is caught and logged by the sink
  and never thrown by it, and the run reports no failure.
\<close>

theorem sinks_order_and_isolation:
  "(fst (scrapeData env) = Inr (Some rows) \<and> rows \<noteq> [] \<longrightarrow>
      (writeRecords env = Some e \<longrightarrow>
         main env = snd (scrapeData env) @ [WriteRecords rows, Log (ErrorScraping e)]
         \<and> \<not> list_ex isSheetEvent (main env))
    \<and> (writeRecords env = None \<longrightarrow>
         main env = snd (scrapeData env) @ [WriteRecords rows, Log (Saved (length rows))]
                      @ snd (saveToGoogleSheet env rows)
         \<and> \<not> list_ex isRunFailure (main env)))
   \<and> fst (saveToGoogleSheet env rows) = None
   \<and> hd (snd (saveToGoogleSheet env rows)) = SaveToGoogleSheet rows
   \<and> (fst (sheetBody env rows) = Some e' \<longrightarrow>
        last (snd (saveToGoogleSheet env rows)) = Log (SheetError e'))
   \<and> (getClient env \<noteq> None \<or> sheetsClear env \<noteq> None \<or> sheetsUpdate env \<noteq> None
        \<longrightarrow> fst (sheetBody env rows) \<noteq> None)"
proof -
  note t = scrapeData_trace [of env] and s = saveToGoogleSheet_trace [of env rows]
  have 1: "fst (scrapeData env) = Inr (Some rows) \<and> rows \<noteq> [] \<longrightarrow>
      (writeRecords env = Some e \<longrightarrow>
         main env = snd (scrapeData env) @ [WriteRecords rows, Log (ErrorScraping e)]
         \<and> \<not> list_ex isSheetEvent (main env))"
    using t no_sink_no_sheet [of "snd (scrapeData env)"]
    by (cases "scrapeData env") (auto simp: main_def)
  have 2: "fst (scrapeData env) = Inr (Some rows) \<and> rows \<noteq> [] \<longrightarrow>
      (writeRecords env = None \<longrightarrow>
         main env = snd (scrapeData env) @ [WriteRecords rows, Log (Saved (length rows))]
                      @ snd (saveToGoogleSheet env rows)
         \<and> \<not> list_ex isRunFailure (main env))"
    using t s
    by (cases "scrapeData env"; cases "saveToGoogleSheet env rows") (auto simp: main_def)
  have 3: "getClient env \<noteq> None \<or> sheetsClear env \<noteq> None \<or> sheetsUpdate env \<noteq> None
        \<longrightarrow> fst (sheetBody env rows) \<noteq> None"
    by (auto simp: sheetBody_def split: option.splits)
  have 4: "fst (saveToGoogleSheet env rows) = None
           \<and> hd (snd (saveToGoogleSheet env rows)) = SaveToGoogleSheet rows"
    using s by simp
  have 5: "fst (sheetBody env rows) = Some e' \<longrightarrow>
        last (snd (saveToGoogleSheet env rows)) = Log (SheetError e')"
    using s by simp
  from 1 2 3 4 5 show ?thesis by argo
qed

theorem sinks_order_and_isolation_witness:
  "fst (scrapeData exRun) = Inr (Some [memberInfo exDocument, memberInfo exDocument])
   \<and> [memberInfo exDocument, memberInfo exDocument] \<noteq> []
   \<and> writeRecords exRun = None
   \<and> getClient exRun \<noteq> None
   \<and> fst (sheetBody exRun [memberInfo exDocument, memberInfo exDocument]) = Some (Error ''auth'')
   \<and> main exRun
       = snd (scrapeData exRun)
         @ [WriteRecords [memberInfo exDocument, memberInfo exDocument], Log (Saved 2),
            SaveToGoogleSheet [memberInfo exDocument, memberInfo exDocument],
            Log (SheetError (Error ''auth''))]
   \<and> \<not> list_ex isRunFailure (main exRun)
   \<and> fst (scrapeData exRunFileFails) = Inr (Some [memberInfo exDocument, memberInfo exDocument])
   \<and> writeRecords exRunFileFails = Some (Error ''EACCES'')
   \<and> main exRunFileFails
       = snd (scrapeData exRunFileFails)
         @ [WriteRecords [memberInfo exDocument, memberInfo exDocument],
            Log (ErrorScraping (Error ''EACCES''))]
   \<and> \<not> list_ex isSheetEvent (main exRunFileFails)"
proof -
  have sb: "sheetBody exRun [memberInfo exDocument, memberInfo exDocument] = (Some (Error ''auth''), [])"
    by (simp add: sheetBody_def ex_run_fields)
  have sv: "snd (saveToGoogleSheet exRun [memberInfo exDocument, memberInfo exDocument])
              = [SaveToGoogleSheet [memberInfo exDocument, memberInfo exDocument],
                 Log (SheetError (Error ''auth''))]"
    by (simp add: saveToGoogleSheet_def sb)
  have wf: "writeRecords exRunFileFails = Some (Error ''EACCES'')"
    by (simp add: exRunFileFails_def)
  show ?thesis
    using sinks_order_and_isolation
            [of exRun "[memberInfo exDocument, memberInfo exDocument]" _ "Error ''auth''"]
          sinks_order_and_isolation
            [of exRunFileFails "[memberInfo exDocument, memberInfo exDocument]" "Error ''EACCES''"]
    by (simp add: ex_scrape ex_scrape_file_fails ex_run_fields sb sv wf)
qed

text \<open>
  Claim C7. When no attempt discovers a link, no profile is visited, no sink is invoked and
  a scrape that returns returns no record; and when the first attempt to complete without an
  uncaught error has discovered no link, the scrape returns the empty record sequence and
  the main program writes to neither sink.
\<close>

theorem zero_links_no_records_no_sinks:
  "((\<forall>k<3. fst (collectMemberLinks (attempts env k)) = []) \<longrightarrow>
       \<not> list_ex isSinkEvent (main env)
     \<and> List.map_filter gotoTarget (snd (scrapeData env)) = []
     \<and> (\<forall>rows. fst (scrapeData env) = Inr (Some rows) \<longrightarrow> rows = []))
   \<and> (launch env = None \<and> newPage env = None \<and> setUserAgent env = None
      \<and> j < 3 \<and> (\<forall>i<j. isl (fst (attempt (attempts env i))))
      \<and> fst (collectMemberLinks (attempts env j)) = []
      \<and> directoryGoto (attempts env j) = None \<and> debugSteps (attempts env j) = None
      \<and> noLinksShot (attempts env j) = None
      \<longrightarrow> fst (scrapeData env) = Inr (Some [])
          \<and> main env = snd (scrapeData env) @ [Log NoData]
          \<and> \<not> list_ex isSinkEvent (main env))"
proof -
  have 1: "(\<forall>k<3. fst (collectMemberLinks (attempts env k)) = []) \<longrightarrow>
       \<not> list_ex isSinkEvent (main env)
     \<and> List.map_filter gotoTarget (snd (scrapeData env)) = []
     \<and> (\<forall>rows. fst (scrapeData env) = Inr (Some rows) \<longrightarrow> rows = [])"
  proof
    assume z: "\<forall>k<3. fst (collectMemberLinks (attempts env k)) = []"
    have r: "(\<forall>rows. fst (retryLoop 3 0 (attempts env)) = Inr (Some rows) \<longrightarrow> rows = [])
             \<and> List.map_filter gotoTarget (snd (retryLoop 3 0 (attempts env))) = []"
      using z by (intro retryLoop_zero_links) simp
    have s: "List.map_filter gotoTarget (snd (scrapeData env)) = []
             \<and> (\<forall>rows. fst (scrapeData env) = Inr (Some rows) \<longrightarrow> rows = [])"
      using r by (cases env rule: scrapeData_cases)
                 (simp_all add: List.map_filter_simps del: retryLoop.simps)
    have "\<not> list_ex isSinkEvent (main env)"
    proof (cases "fst (scrapeData env)")
      case (Inl e)
      then show ?thesis using main_on_error by blast
    next
      case (Inr r)
      with s scrapeData_defined [of env] have "fst (scrapeData env) = Inr (Some [])"
        by (cases r) auto
      then show ?thesis using main_on_empty by blast
    qed
    with s show "\<not> list_ex isSinkEvent (main env)
     \<and> List.map_filter gotoTarget (snd (scrapeData env)) = []
     \<and> (\<forall>rows. fst (scrapeData env) = Inr (Some rows) \<longrightarrow> rows = [])" by blast
  qed
  have 2: "launch env = None \<and> newPage env = None \<and> setUserAgent env = None
      \<and> j < 3 \<and> (\<forall>i<j. isl (fst (attempt (attempts env i))))
      \<and> fst (collectMemberLinks (attempts env j)) = []
      \<and> directoryGoto (attempts env j) = None \<and> debugSteps (attempts env j) = None
      \<and> noLinksShot (attempts env j) = None
      \<longrightarrow> fst (scrapeData env) = Inr (Some [])
          \<and> main env = snd (scrapeData env) @ [Log NoData]
          \<and> \<not> list_ex isSinkEvent (main env)"
  proof (intro impI, elim conjE)
    assume a: "launch env = None" "newPage env = None" "setUserAgent env = None" "j < 3"
      "\<forall>i<j. isl (fst (attempt (attempts env i)))"
      "fst (collectMemberLinks (attempts env j)) = []"
      "directoryGoto (attempts env j) = None" "debugSteps (attempts env j) = None"
      "noLinksShot (attempts env j) = None"
    have "fst (attempt (attempts env j)) = Inr []"
      using a by (intro attempt_zero_links_clean)
    then have "fst (retryLoop 3 0 (attempts env)) = Inr (Some [])"
      using a(4) a(5) retryLoop_first_success [of j 3 "attempts env" 0 "[]"] by simp
    then have "fst (scrapeData env) = Inr (Some [])"
      using a(1-3) by (simp add: scrapeData_ready del: retryLoop.simps)
    then show "fst (scrapeData env) = Inr (Some [])
          \<and> main env = snd (scrapeData env) @ [Log NoData]
          \<and> \<not> list_ex isSinkEvent (main env)"
      using main_on_empty by blast
  qed
  from 1 2 show ?thesis by blast
qed

theorem zero_links_no_records_no_sinks_witness:
  "fst (collectMemberLinks (attempts exRunEmpty 0)) = []
   \<and> fst (collectMemberLinks (attempts exRunEmpty 1)) = []
   \<and> fst (collectMemberLinks (attempts exRunEmpty 2)) = []
   \<and> launch exRunEmpty = None \<and> newPage exRunEmpty = None \<and> setUserAgent exRunEmpty = None
   \<and> (0::nat) < 3
   \<and> directoryGoto (attempts exRunEmpty 0) = None \<and> debugSteps (attempts exRunEmpty 0) = None
   \<and> noLinksShot (attempts exRunEmpty 0) = None
   \<and> fst (scrapeData exRunEmpty) = Inr (Some [])
   \<and> main exRunEmpty = [Launch, NewPage, GotoDirectory, Log NoLinksFound, Log NoData]
   \<and> \<not> list_ex isSinkEvent (main exRunEmpty)
   \<and> List.map_filter gotoTarget (snd (scrapeData exRunEmpty)) = []"
proof -
  have c: "collectMemberLinks exAttemptEmpty = ([], [])"
    by (simp add: collectMemberLinks_def exAttemptEmpty_def exAttempt_def)
  have f: "attempts exRunEmpty k = exAttemptEmpty" "launch exRunEmpty = None"
    "newPage exRunEmpty = None" "setUserAgent exRunEmpty = None" for k
    by (simp_all add: exRunEmpty_def exRun_def)
  have g: "directoryGoto exAttemptEmpty = None" "debugSteps exAttemptEmpty = None"
    "noLinksShot exAttemptEmpty = None"
    by (simp_all add: exAttemptEmpty_def exAttempt_def)
  show ?thesis
    using zero_links_no_records_no_sinks [of exRunEmpty 0]
    by (simp add: c f g ex_scrape_empty)
qed

text \<open>
  Claim C8. A scrape makes at most three attempts. An attempt that throws is followed by
  another one while attempts remain, the console showing 2, 1 and 0 attempts left; the first
  attempt that returns ends the scrape with its records; when the third attempt throws, its
  error is thrown by the scrape, and the main program then reports it and invokes no sink.
\<close>

theorem retry_bounded_final_error_propagates:
  "count_list (snd (scrapeData env)) GotoDirectory \<le> 3
   \<and> (launch env = None \<and> newPage env = None \<and> setUserAgent env = None \<longrightarrow>
        (j < 3 \<and> (\<forall>i<j. isl (fst (attempt (attempts env i))))
           \<and> fst (attempt (attempts env j)) = Inr rows
         \<longrightarrow> fst (scrapeData env) = Inr (Some rows)
             \<and> count_list (snd (scrapeData env)) GotoDirectory = Suc j)
      \<and> ((\<forall>i<2. isl (fst (attempt (attempts env i)))) \<and> fst (attempt (attempts env 2)) = Inl e
         \<longrightarrow> fst (scrapeData env) = Inl e
             \<and> count_list (snd (scrapeData env)) GotoDirectory = 3
             \<and> List.map_filter attemptsLeft (snd (scrapeData env)) = [2, 1, 0]))
   \<and> (fst (scrapeData env) = Inl e' \<longrightarrow>
        main env = snd (scrapeData env) @ [Log (ErrorScraping e')]
        \<and> \<not> list_ex isSinkEvent (main env))"
proof -
  have 1: "count_list (snd (scrapeData env)) GotoDirectory \<le> 3"
    using scrapeData_trace by blast
  have 2: "fst (scrapeData env) = Inr (Some rows)
             \<and> count_list (snd (scrapeData env)) GotoDirectory = Suc j"
    if "launch env = None \<and> newPage env = None \<and> setUserAgent env = None"
      and "j < 3 \<and> (\<forall>i<j. isl (fst (attempt (attempts env i))))
           \<and> fst (attempt (attempts env j)) = Inr rows"
    using that retryLoop_first_success [of j 3 "attempts env" 0 rows]
      retryLoop_first_success_count [of j 3 "attempts env" 0 rows]
    by (simp add: scrapeData_ready del: retryLoop.simps)
  have 3: "fst (scrapeData env) = Inl e
             \<and> count_list (snd (scrapeData env)) GotoDirectory = 3
             \<and> List.map_filter attemptsLeft (snd (scrapeData env)) = [2, 1, 0]"
    if "launch env = None \<and> newPage env = None \<and> setUserAgent env = None"
      and "(\<forall>i<2. isl (fst (attempt (attempts env i)))) \<and> fst (attempt (attempts env 2)) = Inl e"
  proof -
    have a: "\<forall>i<2. isl (fst (attempt (attempts env (0 + i))))" using that by simp
    have b: "fst (attempt (attempts env (0 + 2))) = Inl e" using that by (simp only: add_0)
    have c: "Suc 2 = 3" by simp
    have d: "rev [0..<3] = [2, 1, 0::nat]" by code_simp
    show ?thesis
      using retryLoop_all_fail [OF a b] that(1) unfolding c d
      by (simp add: scrapeData_ready del: retryLoop.simps)
  qed
  have 4: "fst (scrapeData env) = Inl e' \<longrightarrow>
        main env = snd (scrapeData env) @ [Log (ErrorScraping e')]
        \<and> \<not> list_ex isSinkEvent (main env)"
    using main_on_error by blast
  from 1 2 3 4 show ?thesis by argo
qed

theorem retry_bounded_final_error_propagates_witness:
  "launch exRunDown = None \<and> newPage exRunDown = None \<and> setUserAgent exRunDown = None
   \<and> isl (fst (attempt (attempts exRunDown 0))) \<and> isl (fst (attempt (attempts exRunDown 1)))
   \<and> fst (attempt (attempts exRunDown 2)) = Inl (Error ''net'')
   \<and> fst (scrapeData exRunDown) = Inl (Error ''net'')
   \<and> count_list (snd (scrapeData exRunDown)) GotoDirectory = 3
   \<and> List.map_filter attemptsLeft (snd (scrapeData exRunDown)) = [2, 1, 0]
   \<and> main exRunDown = snd (scrapeData exRunDown) @ [Log (ErrorScraping (Error ''net''))]
   \<and> \<not> list_ex isSinkEvent (main exRunDown)
   \<and> launch exRunRetry = None \<and> newPage exRunRetry = None \<and> setUserAgent exRunRetry = None
   \<and> (1::nat) < 3 \<and> isl (fst (attempt (attempts exRunRetry 0)))
   \<and> fst (attempt (attempts exRunRetry 1)) = Inr [memberInfo exDocument, memberInfo exDocument]
   \<and> fst (scrapeData exRunRetry) = Inr (Some [memberInfo exDocument, memberInfo exDocument])
   \<and> count_list (snd (scrapeData exRunRetry)) GotoDirectory = 2"
proof -
  have d: "attempts exRunDown i = exAttemptDown" "launch exRunDown = None"
    "newPage exRunDown = None" "setUserAgent exRunDown = None" for i
    by (simp_all add: exRunDown_def exRun_def)
  have r: "attempts exRunRetry 0 = exAttemptDown" "attempts exRunRetry 1 = exAttempt"
    "attempts exRunRetry (Suc 0) = exAttempt"
    "launch exRunRetry = None" "newPage exRunRetry = None" "setUserAgent exRunRetry = None"
    by (simp_all add: exRunRetry_def exRun_def)
  show ?thesis
    using retry_bounded_final_error_propagates
            [of exRunDown 0 "[]" "Error ''net''" "Error ''net''"]
          retry_bounded_final_error_propagates
            [of exRunRetry 1 "[memberInfo exDocument, memberInfo exDocument]" _ _]
    by (simp add: d r ex_attempt ex_attempt_down ex_scrape_down ex_scrape_retry)
qed

text \<open>
  Claim C9, in the form the code supports. A scrape opens one browsing session and one page
  in it, once, before the first attempt: the trace starts with the launch and, the launch
  succeeding, the opening of the page, and neither event occurs again, so every attempt and
  every retry runs in that same session and page. An attempt that discovered at least one
  link and completes closes the session as its last action before returning its records.
\<close>

theorem single_session_closed_after_walk:
  "count_list (snd (scrapeData env)) Launch = 1
   \<and> hd (snd (scrapeData env)) = Launch
   \<and> count_list (snd (scrapeData env)) NewPage \<le> 1
   \<and> (launch env = None \<longrightarrow>
        take 2 (snd (scrapeData env)) = [Launch, NewPage]
        \<and> count_list (snd (scrapeData env)) NewPage = 1
        \<and> count_list (drop 2 (snd (scrapeData env))) Launch = 0
        \<and> count_list (drop 2 (snd (scrapeData env))) NewPage = 0)
   \<and> (fst (attempt a) = Inr rows \<and> fst (collectMemberLinks a) \<noteq> []
        \<longrightarrow> last (snd (attempt a)) = CloseBrowser)
   \<and> (fst (scrapeData env) = Inr (Some rows') \<and> rows' \<noteq> []
        \<longrightarrow> last (snd (scrapeData env)) = CloseBrowser)"
proof -
  have 1: "count_list (snd (scrapeData env)) Launch = 1 \<and> hd (snd (scrapeData env)) = Launch
           \<and> count_list (snd (scrapeData env)) NewPage \<le> 1"
    using scrapeData_trace by blast
  have 2: "fst (attempt a) = Inr rows \<and> fst (collectMemberLinks a) \<noteq> []
        \<longrightarrow> last (snd (attempt a)) = CloseBrowser"
    using attempt_closes by blast
  have 3: "last (snd (scrapeData env)) = CloseBrowser"
    if "fst (scrapeData env) = Inr (Some rows') \<and> rows' \<noteq> []"
  proof (cases env rule: scrapeData_cases)
    case 3
    with that have r: "fst (retryLoop 3 0 (attempts env)) = Inr (Some rows')" by simp
    then have "last (snd (retryLoop 3 0 (attempts env))) = CloseBrowser"
      using that retryLoop_closes by blast
    moreover have "snd (retryLoop 3 0 (attempts env)) \<noteq> []"
      using r that attempt_trace [of "attempts env 0"]
      by (cases "attempt (attempts env 0)"; cases "fst (attempt (attempts env 0))")
         (auto simp: numeral_3_eq_3 case_prod_beta)
    ultimately show ?thesis using 3 by (simp del: retryLoop.simps)
  qed (use that in simp_all)
  have 4: "launch env = None \<longrightarrow>
        take 2 (snd (scrapeData env)) = [Launch, NewPage]
        \<and> count_list (snd (scrapeData env)) NewPage = 1
        \<and> count_list (drop 2 (snd (scrapeData env))) Launch = 0
        \<and> count_list (drop 2 (snd (scrapeData env))) NewPage = 0"
    using scrapeData_page by blast
  from 1 2 3 4 show ?thesis by argo
qed

theorem single_session_closed_after_walk_witness:
  "fst (attempt exAttempt) = Inr [memberInfo exDocument, memberInfo exDocument]
   \<and> fst (collectMemberLinks exAttempt) \<noteq> []
   \<and> last (snd (attempt exAttempt)) = CloseBrowser
   \<and> fst (scrapeData exRunRetry) = Inr (Some [memberInfo exDocument, memberInfo exDocument])
   \<and> [memberInfo exDocument, memberInfo exDocument] \<noteq> []
   \<and> last (snd (scrapeData exRunRetry)) = CloseBrowser
   \<and> count_list (snd (scrapeData exRunRetry)) Launch = 1
   \<and> hd (snd (scrapeData exRunRetry)) = Launch
   \<and> launch exRunRetry = None
   \<and> take 2 (snd (scrapeData exRunRetry)) = [Launch, NewPage]
   \<and> count_list (snd (scrapeData exRunRetry)) NewPage = 1
   \<and> count_list (snd (scrapeData exRunRetry)) GotoDirectory = 2
   \<and> count_list (drop 2 (snd (scrapeData exRunRetry))) Launch = 0
   \<and> count_list (drop 2 (snd (scrapeData exRunRetry))) NewPage = 0"
proof -
  have l: "launch exRunRetry = None" by (simp add: exRunRetry_def exRun_def)
  show ?thesis
    using single_session_closed_after_walk
            [of exRunRetry exAttempt "[memberInfo exDocument, memberInfo exDocument]"
                "[memberInfo exDocument, memberInfo exDocument]"]
    by (simp add: l ex_attempt ex_collect ex_scrape_retry)
qed

theorem fresh_session_per_attempt_counterexample:
  "snd (scrapeData exRunRetry)
     = [Launch, NewPage, GotoDirectory, Log (Retrying 2), GotoDirectory, GotoProfile exLinkA,
        GotoProfile exLinkB, Log (MemberError 2 (Error ''timeout'')), GotoProfile exLinkC,
        CloseBrowser]
   \<and> count_list (snd (scrapeData exRunRetry)) GotoDirectory = 2
   \<and> count_list (snd (scrapeData exRunRetry)) Launch \<noteq> count_list (snd (scrapeData exRunRetry)) GotoDirectory"
  by (simp add: ex_scrape_retry)

text \<open>
  Claim C10. Whatever happens in the loop over the pagination options, the links already
  collected stay at the front of the collection. When selecting or scanning an option
  throws, the collection is the links of the options before it; when the snapshot of an
  option throws, the links of that option have been added as well. In each case the error is
  logged and, the unguarded steps succeeding, the walk visits exactly the links collected
  before the failure.
\<close>

theorem pagination_failure_keeps_links:
  "take (length acc) (snd (paginationLoop opts acc)) = acc
   \<and> (waitForSelector env = None \<and> selectOptions env = Inr (pre @ bad # post)
      \<and> (\<forall>opt \<in> set pre. selectOption opt = None \<and> optionShot opt = None)
      \<and> map anchorHrefs pre = map Inr hrefss
      \<longrightarrow>
        (selectOption bad = Some e \<or> (selectOption bad = None \<and> anchorHrefs bad = Inl e)
         \<longrightarrow> collectMemberLinks env
               = (spec_firstDiscovery (concat (map pageMemberLinks hrefss)),
                  [Log (PaginationError e)])
             \<and> (directoryGoto env = None \<and> debugSteps env = None
                \<longrightarrow> List.map_filter gotoTarget (snd (attempt env))
                      = spec_firstDiscovery (concat (map pageMemberLinks hrefss))))
      \<and> (selectOption bad = None \<and> anchorHrefs bad = Inr hrefs \<and> optionShot bad = Some e
         \<longrightarrow> collectMemberLinks env
               = (spec_firstDiscovery (concat (map pageMemberLinks (hrefss @ [hrefs]))),
                  [Log (PaginationError e)])
             \<and> (directoryGoto env = None \<and> debugSteps env = None
                \<longrightarrow> List.map_filter gotoTarget (snd (attempt env))
                      = spec_firstDiscovery (concat (map pageMemberLinks (hrefss @ [hrefs]))))))"
proof -
  have 0: "take (length acc) (snd (paginationLoop opts acc)) = acc"
    by (rule paginationLoop_keeps)
  have 1: "collectMemberLinks env
               = (spec_firstDiscovery (concat (map pageMemberLinks hrefss)),
                  [Log (PaginationError e)])
             \<and> (directoryGoto env = None \<and> debugSteps env = None
                \<longrightarrow> List.map_filter gotoTarget (snd (attempt env))
                      = spec_firstDiscovery (concat (map pageMemberLinks hrefss)))"
    if a: "waitForSelector env = None \<and> selectOptions env = Inr (pre @ bad # post)
      \<and> (\<forall>opt \<in> set pre. selectOption opt = None \<and> optionShot opt = None)
      \<and> map anchorHrefs pre = map Inr hrefss"
      and b: "selectOption bad = Some e \<or> (selectOption bad = None \<and> anchorHrefs bad = Inl e)"
  proof -
    have "paginationLoop (pre @ bad # post) (spec_firstDiscovery [])
            = (Some e, spec_firstDiscovery ([] @ concat (map pageMemberLinks hrefss)))"
      using a b by (intro paginationLoop_fails) simp_all
    then have c: "collectMemberLinks env
         = (spec_firstDiscovery (concat (map pageMemberLinks hrefss)), [Log (PaginationError e)])"
      using a by (simp add: collectMemberLinks_def)
    then show ?thesis using attempt_gotos [of env] by simp
  qed
  have 2: "collectMemberLinks env
               = (spec_firstDiscovery (concat (map pageMemberLinks (hrefss @ [hrefs]))),
                  [Log (PaginationError e)])
             \<and> (directoryGoto env = None \<and> debugSteps env = None
                \<longrightarrow> List.map_filter gotoTarget (snd (attempt env))
                      = spec_firstDiscovery (concat (map pageMemberLinks (hrefss @ [hrefs]))))"
    if a: "waitForSelector env = None \<and> selectOptions env = Inr (pre @ bad # post)
      \<and> (\<forall>opt \<in> set pre. selectOption opt = None \<and> optionShot opt = None)
      \<and> map anchorHrefs pre = map Inr hrefss"
      and b: "selectOption bad = None \<and> anchorHrefs bad = Inr hrefs \<and> optionShot bad = Some e"
  proof -
    have "paginationLoop (pre @ bad # post) (spec_firstDiscovery [])
            = (Some e, spec_firstDiscovery ([] @ concat (map pageMemberLinks (hrefss @ [hrefs]))))"
      using a b by (intro paginationLoop_fails_shot) simp_all
    then have c: "collectMemberLinks env
         = (spec_firstDiscovery (concat (map pageMemberLinks (hrefss @ [hrefs]))),
            [Log (PaginationError e)])"
      using a by (simp add: collectMemberLinks_def)
    then show ?thesis using attempt_gotos [of env] by simp
  qed
  from 0 1 2 show ?thesis by argo
qed

theorem pagination_failure_keeps_links_witness:
  "waitForSelector exAttemptPartial = None
   \<and> selectOptions exAttemptPartial = Inr ([exOption10] @ exOptionBad # [exOption25])
   \<and> selectOption exOption10 = None \<and> optionShot exOption10 = None
   \<and> map anchorHrefs [exOption10] = map Inr [[str ''/about'', exLinkA, exLinkB]]
   \<and> selectOption exOptionBad = None \<and> anchorHrefs exOptionBad = Inl (Error ''detached'')
   \<and> directoryGoto exAttemptPartial = None \<and> debugSteps exAttemptPartial = None
   \<and> collectMemberLinks exAttemptPartial
       = ([exLinkA, exLinkB], [Log (PaginationError (Error ''detached''))])
   \<and> List.map_filter gotoTarget (snd (attempt exAttemptPartial)) = [exLinkA, exLinkB]
   \<and> waitForSelector exAttemptShot = None
   \<and> selectOptions exAttemptShot = Inr ([exOption10] @ exOptionShot # [exOption10])
   \<and> selectOption exOptionShot = None \<and> anchorHrefs exOptionShot = Inr [exLinkB, [], exLinkC]
   \<and> optionShot exOptionShot = Some (Error ''disk'')
   \<and> directoryGoto exAttemptShot = None \<and> debugSteps exAttemptShot = None
   \<and> collectMemberLinks exAttemptShot
       = ([exLinkA, exLinkB, exLinkC], [Log (PaginationError (Error ''disk''))])
   \<and> List.map_filter gotoTarget (snd (attempt exAttemptShot)) = [exLinkA, exLinkB, exLinkC]"
proof -
  have p: "waitForSelector exAttemptPartial = None"
    "selectOptions exAttemptPartial = Inr ([exOption10] @ exOptionBad # [exOption25])"
    "directoryGoto exAttemptPartial = None" "debugSteps exAttemptPartial = None"
    by (simp_all add: exAttemptPartial_def exAttempt_def)
  have q: "waitForSelector exAttemptShot = None"
    "selectOptions exAttemptShot = Inr ([exOption10] @ exOptionShot # [exOption10])"
    "directoryGoto exAttemptShot = None" "debugSteps exAttemptShot = None"
    by (simp_all add: exAttemptShot_def exAttempt_def)
  have o: "selectOption exOption10 = None" "optionShot exOption10 = None"
    "anchorHrefs exOption10 = Inr [str ''/about'', exLinkA, exLinkB]"
    "selectOption exOptionBad = None" "anchorHrefs exOptionBad = Inl (Error ''detached'')"
    "selectOption exOptionShot = None" "anchorHrefs exOptionShot = Inr [exLinkB, [], exLinkC]"
    "optionShot exOptionShot = Some (Error ''disk'')"
    by (simp_all add: exOption10_def exOptionBad_def exOptionShot_def)
  have 1: "List.map_filter gotoTarget (snd (attempt exAttemptPartial))
             = spec_firstDiscovery (concat (map pageMemberLinks [[str ''/about'', exLinkA, exLinkB]]))"
    using pagination_failure_keeps_links
            [of _ _ exAttemptPartial "[exOption10]" exOptionBad "[exOption25]"
                "[[str ''/about'', exLinkA, exLinkB]]" "Error ''detached''"]
          p o by simp
  have 2: "List.map_filter gotoTarget (snd (attempt exAttemptShot))
             = spec_firstDiscovery
                 (concat (map pageMemberLinks ([[str ''/about'', exLinkA, exLinkB]] @ [[exLinkB, [], exLinkC]])))"
    using pagination_failure_keeps_links
            [of _ _ exAttemptShot "[exOption10]" exOptionShot "[exOption10]"
                "[[str ''/about'', exLinkA, exLinkB]]" "Error ''disk''" "[exLinkB, [], exLinkC]"]
          q o by simp
  have 3: "spec_firstDiscovery (pageMemberLinks [str ''/about'', exLinkA, exLinkB])
             = [exLinkA, exLinkB]"
    "spec_firstDiscovery
       (pageMemberLinks [str ''/about'', exLinkA, exLinkB] @ pageMemberLinks [exLinkB, [], exLinkC])
       = [exLinkA, exLinkB, exLinkC]"
    by (simp_all add: ex_pageMemberLinks ex_links_distinct)
  show ?thesis
    using 1 2 by (simp add: 3 p q o ex_collect_partial ex_collect_shot)
qed

end
